theory Spec2Isabelle
  imports Complex_Main "HOL-Library.Word" "HOL-Library.Log_Nat"
begin

section \<open>JavaScript values\<close>

text \<open>
  A JavaScript string is a sequence of UTF-16 code units. String literals of the source
  are ASCII and are written \<open>js ''...''\<close>. \<open>null\<close> and \<open>undefined\<close> are \<open>None\<close>. The byte
  counts, speeds and times of the records arrive as JSON and are finite: such a
  \<open>number\<close> is a \<open>real\<close>. Where the rounding of doubles and \<open>NaN\<close> and \<open>Infinity\<close> matter,
  in the bandwidth field of the settings, a \<open>number\<close> is of the type \<open>number\<close> below.
\<close>

type_synonym code_unit = "16 word"
type_synonym jsstring = "code_unit list"

definition js :: "string \<Rightarrow> jsstring" where
  "js s = map (\<lambda>c. of_nat (of_char c)) s"

datatype js_error = TypeError

section \<open>App.tsx: parseUrlsFromText\<close>

text \<open>
  The characters matched by \<open>\s\<close> in a regular expression, which are also the
  characters \<open>String.prototype.trim\<close> strips: WhiteSpace and LineTerminator.
\<close>

definition is_space :: "code_unit \<Rightarrow> bool" where
  "is_space c =
     (c \<in> {0x9, 0xA, 0xB, 0xC, 0xD, 0x20, 0xA0, 0x1680, 0x2028, 0x2029, 0x202F,
            0x205F, 0x3000, 0xFEFF}
      \<or> (0x2000 \<le> c \<and> c \<le> 0x200A))"

text \<open>
  \<open>text.split(/\s+/)\<close>: the scan keeps the piece read since the last separator in
  \<open>cur\<close>; at a whitespace character the regular expression matches the whole run of
  whitespace, the piece is emitted and the scan goes on behind the run. The piece left at
  the end of the text is emitted too, so the empty text gives one empty piece.
\<close>

function split_loop :: "jsstring \<Rightarrow> jsstring \<Rightarrow> jsstring list" where
  "split_loop cur [] = [cur]"
| "split_loop cur (c # cs) =
     (if is_space c then cur # split_loop [] (dropWhile is_space cs)
      else split_loop (cur @ [c]) cs)"
  by pat_completeness auto
termination
  by (relation "measure (\<lambda>(cur, s). length s)")
     (auto intro: le_imp_less_Suc length_dropWhile_le)

definition split_ws :: "jsstring \<Rightarrow> jsstring list" where
  "split_ws text = split_loop [] text"

definition trim :: "jsstring \<Rightarrow> jsstring" where
  "trim s = rev (dropWhile is_space (rev (dropWhile is_space s)))"

text \<open>\<open>text.split(/\s+/).map((s) => s.trim()).filter(Boolean)\<close>\<close>

definition parts :: "jsstring \<Rightarrow> jsstring list" where
  "parts text = filter (\<lambda>s. s \<noteq> []) (map trim (split_ws text))"

text \<open>
  The platform's \<open>URL\<close> class is not part of the repository: the constructor is a
  parameter \<open>new_URL\<close> of the model, which either throws a \<open>TypeError\<close> or returns an
  object, of which the code reads \<open>protocol\<close> and \<open>toString()\<close>.
\<close>

record URL =
  protocol :: jsstring
  toString :: jsstring

type_synonym URL_constructor = "jsstring \<Rightarrow> js_error + URL"

text \<open>The body of the \<open>try\<close> block, for one part \<open>p\<close> and the array \<open>out\<close> so far.\<close>

definition try_push :: "URL_constructor \<Rightarrow> jsstring \<Rightarrow> jsstring list \<Rightarrow> js_error + jsstring list" where
  "try_push new_URL p out =
     (case new_URL p of
        Inl e \<Rightarrow> Inl e
      | Inr u \<Rightarrow>
          Inr (if protocol u = js ''http:'' \<or> protocol u = js ''https:''
               then out @ [toString u] else out))"

text \<open>\<open>try { ... } catch { /* ignore */ }\<close>\<close>

definition try_catch_push :: "URL_constructor \<Rightarrow> jsstring \<Rightarrow> jsstring list \<Rightarrow> js_error + jsstring list" where
  "try_catch_push new_URL p out =
     (case try_push new_URL p out of
        Inl e \<Rightarrow> Inr out
      | Inr out' \<Rightarrow> Inr out')"

text \<open>\<open>for (const p of parts) ...\<close>: an exception that leaves the body ends the loop.\<close>

fun for_of_parts :: "URL_constructor \<Rightarrow> jsstring list \<Rightarrow> jsstring list \<Rightarrow> js_error + jsstring list" where
  "for_of_parts new_URL [] out = Inr out"
| "for_of_parts new_URL (p # ps) out =
     (case try_catch_push new_URL p out of
        Inl e \<Rightarrow> Inl e
      | Inr out' \<Rightarrow> for_of_parts new_URL ps out')"

text \<open>
  \<open>Array.from(new Set(out))\<close>: a \<open>Set\<close> keeps its elements in insertion order and
  ignores the insertion of an element it already has.
\<close>

definition Set_add :: "'a list \<Rightarrow> 'a \<Rightarrow> 'a list" where
  "Set_add s x = (if x \<in> set s then s else s @ [x])"

definition Array_from_new_Set :: "'a list \<Rightarrow> 'a list" where
  "Array_from_new_Set xs = foldl Set_add [] xs"

definition parseUrlsFromText :: "URL_constructor \<Rightarrow> jsstring \<Rightarrow> js_error + jsstring list" where
  "parseUrlsFromText new_URL text =
     (case for_of_parts new_URL (parts text) [] of
        Inl e \<Rightarrow> Inl e
      | Inr out \<Rightarrow> Inr (Array_from_new_Set out))"

text \<open>
  A token of a whitespace-split text: a non-empty run of non-whitespace characters that
  is bounded on each side by a whitespace character or by the end of the text.
\<close>

definition ws_token :: "jsstring \<Rightarrow> jsstring \<Rightarrow> bool" where
  "ws_token text p \<longleftrightarrow>
     p \<noteq> [] \<and> (\<forall>c\<in>set p. \<not> is_space c) \<and>
     (\<exists>pre post. text = pre @ p @ post \<and>
        (pre = [] \<or> is_space (last pre)) \<and> (post = [] \<or> is_space (hd post)))"

text \<open>
  A \<open>URL\<close> constructor for examples. It knows three addresses, for which it gives the
  protocol and the serialisation of the platform's parser (an \<open>http\<close> or \<open>ftp\<close> address
  without a path is serialised with the path \<open>/\<close>), and rejects every other string.
\<close>

definition example_URL :: URL_constructor where
  "example_URL p =
     (if p = js ''http://a'' then Inr \<lparr>protocol = js ''http:'', toString = js ''http://a/''\<rparr>
      else if p = js ''https://b/c'' then Inr \<lparr>protocol = js ''https:'', toString = js ''https://b/c''\<rparr>
      else if p = js ''ftp://d'' then Inr \<lparr>protocol = js ''ftp:'', toString = js ''ftp://d/''\<rparr>
      else Inl TypeError)"


section \<open>Numbers of the bandwidth field\<close>

text \<open>
  A double that holds \<open>NaN\<close>, an infinity or an integer. The bandwidth limit is a whole
  number of bytes per second: the backend sends one and the editor stores one. Not every
  integer is a double: \<open>to_double\<close> rounds an integer to the nearest double, a tie to the
  one with the even significand of 53 bits, and to an infinity from \<open>2 ^ 1024 - 2 ^ 970\<close>
  on. The two zeros behave alike in all that follows and are both \<open>Num 0\<close>.
\<close>

datatype number = NaN | Infinity | NegInfinity | Num int

definition round_to_53_bits :: "nat \<Rightarrow> nat" where
  "round_to_53_bits n =
     (if n < 2 ^ 53 then n
      else let e = floorlog 2 n - 53;
               q = n div 2 ^ e;
               r = n mod 2 ^ e
           in (if 2 ^ e < 2 * r \<or> (2 * r = 2 ^ e \<and> odd q) then q + 1 else q) * 2 ^ e)"

definition to_double :: "int \<Rightarrow> number" where
  "to_double i =
     (let m = round_to_53_bits (nat \<bar>i\<bar>)
      in if 2 ^ 1024 \<le> m then (if i < 0 then NegInfinity else Infinity)
         else Num (if i < 0 then - int m else int m))"

text \<open>
  \<open>parseInt(string, 10)\<close> of the platform, as ECMAScript defines it: leading white space
  is dropped, then a sign is read, then the longest run of decimal digits; without a
  digit the result is \<open>NaN\<close>, else the double nearest to the signed value of the digits.
  (Beyond 20 significant digits an implementation may read further digits as zeros.)
\<close>

definition is_digit :: "code_unit \<Rightarrow> bool" where
  "is_digit c = (0x30 \<le> c \<and> c \<le> 0x39)"

definition digit_value :: "code_unit \<Rightarrow> nat" where
  "digit_value c = unat c - 48"

definition mathInt :: "jsstring \<Rightarrow> nat" where
  "mathInt Z = foldl (\<lambda>a c. 10 * a + digit_value c) 0 Z"

definition parseInt :: "jsstring \<Rightarrow> number" where
  "parseInt string =
     (let S = dropWhile is_space string;
          sign = (if S \<noteq> [] \<and> hd S = 0x2D then - 1 else 1);
          S' = (if S \<noteq> [] \<and> (hd S = 0x2B \<or> hd S = 0x2D) then tl S else S);
          Z = takeWhile is_digit S'
      in if Z = [] then NaN else to_double (sign * int (mathInt Z)))"

text \<open>\<open>kb > 0\<close>: every comparison with \<open>NaN\<close> is false.\<close>

definition greater_0 :: "number \<Rightarrow> bool" where
  "greater_0 x = (case x of NaN \<Rightarrow> False | Infinity \<Rightarrow> True | NegInfinity \<Rightarrow> False | Num n \<Rightarrow> 0 < n)"

text \<open>\<open>kb * 1024\<close>: the double nearest to the product.\<close>

definition times_1024 :: "number \<Rightarrow> number" where
  "times_1024 x =
     (case x of
        NaN \<Rightarrow> NaN
      | Infinity \<Rightarrow> Infinity
      | NegInfinity \<Rightarrow> NegInfinity
      | Num n \<Rightarrow> to_double (n * 1024))"

text \<open>
  \<open>Math.floor(b / 1024)\<close>: for a double \<open>b\<close> that is an integer the quotient by 1024 is a
  double, so the division does not round, and the floor of a double is a double.
\<close>

definition floor_div_1024 :: "number \<Rightarrow> number" where
  "floor_div_1024 x =
     (case x of
        NaN \<Rightarrow> NaN
      | Infinity \<Rightarrow> Infinity
      | NegInfinity \<Rightarrow> NegInfinity
      | Num n \<Rightarrow> Num (n div 1024))"

text \<open>The decimal digits of a natural number, as one types them into the field.\<close>

definition digit_char :: "nat \<Rightarrow> code_unit" where
  "digit_char d = of_nat (48 + d)"

function decimal :: "nat \<Rightarrow> jsstring" where
  "decimal n = (if n < 10 then [digit_char n] else decimal (n div 10) @ [digit_char (n mod 10)])"
  by pat_completeness auto
termination
  by (relation "measure (\<lambda>n. n)") auto

declare decimal.simps [simp del]

section \<open>types.ts\<close>

datatype DownloadStatus = QUEUED | DOWNLOADING | PAUSED | COMPLETED | ERROR

text \<open>
  The members of a union of string literal types are strings: \<open>DownloadStatus_str\<close> and
  \<open>ErrorCode_str\<close> give the string each member is.
\<close>

fun DownloadStatus_str :: "DownloadStatus \<Rightarrow> jsstring" where
  "DownloadStatus_str QUEUED = js ''QUEUED''"
| "DownloadStatus_str DOWNLOADING = js ''DOWNLOADING''"
| "DownloadStatus_str PAUSED = js ''PAUSED''"
| "DownloadStatus_str COMPLETED = js ''COMPLETED''"
| "DownloadStatus_str ERROR = js ''ERROR''"

datatype ErrorCode =
    DNS_FAIL
  | CONNECT_FAIL
  | TLS_FAIL
  | HTTP_4XX
  | HTTP_5XX
  | TIMEOUT
  | RANGE_UNSUPPORTED
  | DISK_FULL
  | REMOTE_CHANGED
  | PERMISSION_DENIED
  | CANCELLED
  | INVALID_URL
  | UNKNOWN

fun ErrorCode_str :: "ErrorCode \<Rightarrow> jsstring" where
  "ErrorCode_str DNS_FAIL = js ''DNS_FAIL''"
| "ErrorCode_str CONNECT_FAIL = js ''CONNECT_FAIL''"
| "ErrorCode_str TLS_FAIL = js ''TLS_FAIL''"
| "ErrorCode_str HTTP_4XX = js ''HTTP_4XX''"
| "ErrorCode_str HTTP_5XX = js ''HTTP_5XX''"
| "ErrorCode_str TIMEOUT = js ''TIMEOUT''"
| "ErrorCode_str RANGE_UNSUPPORTED = js ''RANGE_UNSUPPORTED''"
| "ErrorCode_str DISK_FULL = js ''DISK_FULL''"
| "ErrorCode_str REMOTE_CHANGED = js ''REMOTE_CHANGED''"
| "ErrorCode_str PERMISSION_DENIED = js ''PERMISSION_DENIED''"
| "ErrorCode_str CANCELLED = js ''CANCELLED''"
| "ErrorCode_str INVALID_URL = js ''INVALID_URL''"
| "ErrorCode_str UNKNOWN = js ''UNKNOWN''"

record DownloadProgressUpdate =
  id :: jsstring
  status :: DownloadStatus
  bytes_downloaded :: real
  content_length :: "real option"
  speed_bps :: real
  eta_seconds :: "real option"
  error_code :: "ErrorCode option"
  error_message :: "jsstring option"
  updated_at :: jsstring

record DownloadRecord =
  id :: jsstring
  created_at :: jsstring
  updated_at :: jsstring
  started_at :: "jsstring option"
  completed_at :: "jsstring option"
  forced_proxy :: bool
  forced_proxy_url :: "jsstring option"
  original_url :: jsstring
  resolved_url :: "jsstring option"
  dest_dir :: jsstring
  final_filename :: "jsstring option"
  temp_path :: "jsstring option"
  status :: DownloadStatus
  error_code :: "ErrorCode option"
  error_message :: "jsstring option"
  content_length :: "real option"
  etag :: "jsstring option"
  last_modified :: "jsstring option"
  bytes_downloaded :: real
  supports_ranges :: "bool option"
  mirror_used :: "jsstring option"
  batch_id :: "jsstring option"

datatype theme = dark | mirage | light

record SettingsSnapshot =
  default_download_dir :: jsstring
  bandwidth_limit_bps :: "number option"
  minimize_to_tray :: bool
  theme :: theme
  global_proxy_enabled :: bool
  global_proxy_url :: "jsstring option"
  local_api_port :: real

text \<open>
  The declaration of the interface \<open>SettingsSnapshot\<close> itself, as data: the name and the
  type of each field, in the order of the source.
\<close>

datatype ts_type = TString | TNumber | TBoolean | TNull | TLiteral string | TUnion "ts_type list"

definition SettingsSnapshot_fields :: "(string \<times> ts_type) list" where
  "SettingsSnapshot_fields =
     [(''default_download_dir'', TString),
      (''bandwidth_limit_bps'', TUnion [TNumber, TNull]),
      (''minimize_to_tray'', TBoolean),
      (''theme'', TUnion [TLiteral ''dark'', TLiteral ''mirage'', TLiteral ''light'']),
      (''global_proxy_enabled'', TBoolean),
      (''global_proxy_url'', TUnion [TString, TNull]),
      (''local_api_port'', TNumber)]"

text \<open>
  The fields the specification lists for the Settings record, under the names the
  repository uses for them.
\<close>

definition spec_Settings_fields :: "string list" where
  "spec_Settings_fields =
     [''default_download_dir'', ''bandwidth_limit_bps'', ''global_proxy_enabled'',
      ''global_proxy_url'', ''minimize_to_tray'', ''theme'', ''skin'', ''global_hotkey'',
      ''local_api_port'', ''local_api_token'']"

section \<open>App.tsx: the state of the App component\<close>

text \<open>
  \<open>progressById\<close> is a plain object used as a dictionary from download ids to the last
  progress update received for the id. Such an object has its own properties and a
  prototype. The prototype is \<open>Object.prototype\<close> (\<open>None\<close>) until an assignment to the key
  \<open>__proto__\<close> replaces it by the object assigned, here a progress update.
\<close>

record progress_object =
  own :: "jsstring \<rightharpoonup> DownloadProgressUpdate"
  proto :: "DownloadProgressUpdate option"

text \<open>
  \<open>obj[k]\<close>, read as a progress update. An own property is found first. The key
  \<open>__proto__\<close> is then an accessor of \<open>Object.prototype\<close> that gives the prototype. Any
  other property found along the prototype chain (a method of \<open>Object.prototype\<close>, a field
  of a progress update that is the prototype) is no progress update and has none of the
  properties a row reads, so that \<open>p?.status\<close> and the like are \<open>undefined\<close> as they are
  for a missing property: it is read as \<open>None\<close>.
\<close>

definition obj_get :: "progress_object \<Rightarrow> jsstring \<Rightarrow> DownloadProgressUpdate option" where
  "obj_get obj k =
     (case own obj k of
        Some u \<Rightarrow> Some u
      | None \<Rightarrow> if k = js ''__proto__'' then proto obj else None)"

text \<open>
  \<open>obj[k] = u\<close>: an own property is overwritten. Without one, the key \<open>__proto__\<close>
  reaches the setter of \<open>Object.prototype\<close>, which makes \<open>u\<close> the prototype and creates no
  property; every other key becomes an own property.
\<close>

definition obj_set :: "progress_object \<Rightarrow> jsstring \<Rightarrow> DownloadProgressUpdate \<Rightarrow> progress_object" where
  "obj_set obj k u =
     (if k = js ''__proto__'' \<and> own obj k = None then obj\<lparr>proto := Some u\<rparr>
      else obj\<lparr>own := (own obj)(k \<mapsto> u)\<rparr>)"

text \<open>\<open>{ ...prev }\<close>: a new object with the own properties of \<open>prev\<close>.\<close>

definition obj_spread :: "progress_object \<Rightarrow> progress_object" where
  "obj_spread prev = \<lparr>own = own prev, proto = None\<rparr>"

record App_state =
  downloads :: "DownloadRecord list"
  progressById :: progress_object

text \<open>
  \<open>refreshDownloads\<close>: \<open>reply\<close> is what \<open>invoke('cmd_list_downloads')\<close> settles to, the
  list of the store or a rejection; a rejection leaves the function before it sets any
  state. The two state updates are one transition of the component. The loop over
  \<open>Object.entries(prev)\<close> assigns each own property of \<open>prev\<close> with an active id to the
  new object \<open>next\<close>, once: the properties other than \<open>__proto__\<close> become own properties
  of \<open>next\<close>, and an own property \<open>__proto__\<close> would become its prototype.
\<close>

definition refreshDownloads :: "js_error + DownloadRecord list \<Rightarrow> App_state \<Rightarrow> js_error + App_state" where
  "refreshDownloads reply st =
     (case reply of
        Inl e \<Rightarrow> Inl e
      | Inr list \<Rightarrow>
          (let active = set (map DownloadRecord.id
                 (filter (\<lambda>d. DownloadRecord.status d = DOWNLOADING \<or> DownloadRecord.status d = QUEUED) list));
               prev = progressById st
           in Inr (st\<lparr>downloads := list,
                      progressById :=
                        \<lparr>own = (\<lambda>k. if k \<in> active \<and> k \<noteq> js ''__proto__'' then own prev k else None),
                         proto = (if js ''__proto__'' \<in> active then own prev (js ''__proto__'') else None)\<rparr>\<rparr>)))"

text \<open>
  The listener of \<open>EVENT_PROGRESS_BATCH\<close>; \<open>payload\<close> is \<open>e.payload\<close>. The new object is
  \<open>{ ...prev }\<close>, and \<open>next[u.id] = u\<close> is an assignment to it for each update of the batch.
\<close>

definition on_progress_batch :: "DownloadProgressUpdate list option \<Rightarrow> App_state \<Rightarrow> App_state" where
  "on_progress_batch payload st =
     (let batch = (case payload of None \<Rightarrow> [] | Some b \<Rightarrow> b)
      in if length batch = 0 then st
         else st\<lparr>progressById :=
                foldl (\<lambda>next u. obj_set next (DownloadProgressUpdate.id u) u)
                  (obj_spread (progressById st)) batch\<rparr>)"

definition EVENT_PROGRESS_BATCH :: jsstring where
  "EVENT_PROGRESS_BATCH = js ''zdmr://progress_batch''"

definition EVENT_DOWNLOADS_CHANGED :: jsstring where
  "EVENT_DOWNLOADS_CHANGED = js ''zdmr://downloads_changed''"

text \<open>
  The calls of \<open>listen\<close> in the effect of \<open>App\<close>, in order: the event name and the
  listener. A listener gets the payload of the event and, for the command it invokes,
  the reply of the backend.
\<close>

type_synonym listener =
  "DownloadProgressUpdate list option \<Rightarrow> js_error + DownloadRecord list \<Rightarrow> App_state \<Rightarrow> js_error + App_state"

definition listeners :: "(jsstring \<times> listener) list" where
  "listeners =
     [(EVENT_PROGRESS_BATCH, \<lambda>payload reply st. Inr (on_progress_batch payload st)),
      (EVENT_DOWNLOADS_CHANGED, \<lambda>payload reply st. refreshDownloads reply st)]"

text \<open>An event is delivered to every listener registered under its name.\<close>

fun deliver :: "(jsstring \<times> listener) list \<Rightarrow> jsstring \<Rightarrow> DownloadProgressUpdate list option \<Rightarrow>
    js_error + DownloadRecord list \<Rightarrow> App_state \<Rightarrow> js_error + App_state" where
  "deliver [] name payload reply st = Inr st"
| "deliver ((n, l) # ls) name payload reply st =
     (if n = name
      then (case l payload reply st of
              Inl e \<Rightarrow> Inl e
            | Inr st' \<Rightarrow> deliver ls name payload reply st')
      else deliver ls name payload reply st)"

definition emit :: "jsstring \<Rightarrow> DownloadProgressUpdate list option \<Rightarrow>
    js_error + DownloadRecord list \<Rightarrow> App_state \<Rightarrow> js_error + App_state" where
  "emit name payload reply st = deliver listeners name payload reply st"

subsection \<open>The rows of the list\<close>

text \<open>\<open>const p = progressById[d.id]\<close>\<close>

definition row_p :: "App_state \<Rightarrow> DownloadRecord \<Rightarrow> DownloadProgressUpdate option" where
  "row_p st d = obj_get (progressById st) (DownloadRecord.id d)"

text \<open>\<open>const bytes = p?.bytes_downloaded ?? d.bytes_downloaded\<close>\<close>

definition row_bytes :: "DownloadProgressUpdate option \<Rightarrow> DownloadRecord \<Rightarrow> real" where
  "row_bytes p d =
     (case p of
        None \<Rightarrow> DownloadRecord.bytes_downloaded d
      | Some u \<Rightarrow> DownloadProgressUpdate.bytes_downloaded u)"

text \<open>\<open>const total = p?.content_length ?? d.content_length ?? undefined\<close>\<close>

definition row_total :: "DownloadProgressUpdate option \<Rightarrow> DownloadRecord \<Rightarrow> real option" where
  "row_total p d =
     (case p of
        None \<Rightarrow> DownloadRecord.content_length d
      | Some u \<Rightarrow>
          (case DownloadProgressUpdate.content_length u of
             None \<Rightarrow> DownloadRecord.content_length d
           | Some t \<Rightarrow> Some t))"

text \<open>
  \<open>const pct = total && total > 0 ? Math.min(1, Math.max(0, bytes / total)) : 0\<close>;
  \<open>undefined\<close> and \<open>0\<close> are falsy.
\<close>

definition row_pct :: "DownloadProgressUpdate option \<Rightarrow> DownloadRecord \<Rightarrow> real" where
  "row_pct p d =
     (case row_total p d of
        None \<Rightarrow> 0
      | Some t \<Rightarrow>
          if t \<noteq> 0 \<and> t > 0 then min 1 (max 0 (row_bytes p d / t)) else 0)"

text \<open>\<open>const pct100 = Math.max(0, Math.min(100, pct * 100))\<close>\<close>

definition row_pct100 :: "DownloadProgressUpdate option \<Rightarrow> DownloadRecord \<Rightarrow> real" where
  "row_pct100 p d = max 0 (min 100 (row_pct p d * 100))"

text \<open>\<open>const status = p?.status ?? d.status\<close>\<close>

definition row_status :: "DownloadProgressUpdate option \<Rightarrow> DownloadRecord \<Rightarrow> DownloadStatus" where
  "row_status p d =
     (case p of
        None \<Rightarrow> DownloadRecord.status d
      | Some u \<Rightarrow> DownloadProgressUpdate.status u)"

text \<open>\<open>const err = p?.error_message ?? d.error_message\<close>\<close>

definition row_err :: "DownloadProgressUpdate option \<Rightarrow> DownloadRecord \<Rightarrow> jsstring option" where
  "row_err p d =
     (case p of
        None \<Rightarrow> DownloadRecord.error_message d
      | Some u \<Rightarrow>
          (case DownloadProgressUpdate.error_message u of
             None \<Rightarrow> DownloadRecord.error_message d
           | Some m \<Rightarrow> Some m))"

text \<open>The text of the status cell: \<open>status === 'ERROR' ? err ?? 'Error' : status\<close>\<close>

definition status_cell :: "DownloadProgressUpdate option \<Rightarrow> DownloadRecord \<Rightarrow> jsstring" where
  "status_cell p d =
     (if row_status p d = ERROR
      then (case row_err p d of None \<Rightarrow> js ''Error'' | Some m \<Rightarrow> m)
      else DownloadStatus_str (row_status p d))"

text \<open>The status a row of the list shows for the download \<open>d\<close> in the state \<open>st\<close>.\<close>

definition displayed_status :: "App_state \<Rightarrow> DownloadRecord \<Rightarrow> DownloadStatus" where
  "displayed_status st d = row_status (row_p st d) d"

subsection \<open>statusSummary\<close>

text \<open>
  \<open>counts\<close> is an object with one numeric property per status;
  \<open>for (const d of downloads) counts[d.status]++\<close>.
\<close>

definition statusSummary_counts :: "DownloadRecord list \<Rightarrow> DownloadStatus \<Rightarrow> nat" where
  "statusSummary_counts ds =
     foldl (\<lambda>counts d. counts(DownloadRecord.status d := counts (DownloadRecord.status d) + 1))
       (\<lambda>s. 0) ds"


section \<open>App.tsx: the context menu\<close>

text \<open>
  The element with the id \<open>ctx\<close>: the properties of its \<open>style\<close> and \<open>dataset\<close> that the
  code writes (positions in pixels). A \<open>dataset\<close> entry that was never written is
  \<open>undefined\<close>. The document has the element once \<open>ContextMenu\<close> is mounted:
  \<open>document.getElementById('ctx')\<close> is the document of the model.
\<close>

record ctx_element =
  style_left :: real
  style_top :: real
  style_display :: jsstring
  dataset_id :: "jsstring option"
  dataset_url :: "jsstring option"
  dataset_dest :: "jsstring option"
  dataset_status :: "jsstring option"

type_synonym document = "ctx_element option"

definition showContextMenu :: "real \<Rightarrow> real \<Rightarrow> DownloadRecord \<Rightarrow> jsstring \<Rightarrow> document \<Rightarrow> document" where
  "showContextMenu x y d status' doc =
     (case doc of
        None \<Rightarrow> None
      | Some menu \<Rightarrow>
          Some (menu\<lparr>style_left := x,
                     style_top := y,
                     style_display := js ''block'',
                     dataset_id := Some (DownloadRecord.id d),
                     dataset_url := Some (case resolved_url d of None \<Rightarrow> original_url d | Some r \<Rightarrow> r),
                     dataset_dest := Some (dest_dir d),
                     dataset_status := Some status'\<rparr>))"

definition hideContextMenu :: "document \<Rightarrow> document" where
  "hideContextMenu doc =
     (case doc of
        None \<Rightarrow> None
      | Some menu \<Rightarrow> Some (menu\<lparr>style_display := js ''none''\<rparr>))"

text \<open>
  \<open>onContextMenu\<close> of a row: \<open>showContextMenu(ev.clientX, ev.clientY, d, status)\<close> with
  the status the row shows.
\<close>

definition row_onContextMenu :: "real \<Rightarrow> real \<Rightarrow> DownloadProgressUpdate option \<Rightarrow> DownloadRecord \<Rightarrow> document \<Rightarrow> document" where
  "row_onContextMenu x y p d doc = showContextMenu x y d (DownloadStatus_str (row_status p d)) doc"

text \<open>The commands the menu entry invokes, with the \<open>id\<close> argument they are given.\<close>

datatype command =
    cmd_resume_download "jsstring option"
  | cmd_pause_download "jsstring option"

text \<open>
  \<open>onClick\<close> of the entry "Pause / Resume": the command it invokes and the document
  after \<open>hideContextMenu()\<close>. Reading \<open>dataset\<close> of a missing element throws.
\<close>

definition pause_resume_onClick :: "document \<Rightarrow> js_error + command \<times> document" where
  "pause_resume_onClick doc =
     (case doc of
        None \<Rightarrow> Inl TypeError
      | Some el \<Rightarrow>
          (let id = dataset_id el;
               status = dataset_status el
           in Inr (if status = Some (js ''PAUSED'') then cmd_resume_download id
                   else cmd_pause_download id,
                   hideContextMenu doc)))"

text \<open>
  Opening the menu on a row and choosing "Pause / Resume". The backend is not part of
  the sources: \<open>invoke\<close> is the effect of a command on its state.
\<close>

definition pause_resume_action ::
  "(command \<Rightarrow> 'b \<Rightarrow> 'b) \<Rightarrow> real \<Rightarrow> real \<Rightarrow> DownloadProgressUpdate option \<Rightarrow> DownloadRecord \<Rightarrow>
     document \<times> 'b \<Rightarrow> js_error + document \<times> 'b" where
  "pause_resume_action invoke x y p d s =
     (case pause_resume_onClick (row_onContextMenu x y p d (fst s)) of
        Inl e \<Rightarrow> Inl e
      | Inr (c, doc') \<Rightarrow> Inr (doc', invoke c (snd s)))"

section \<open>App.tsx: the bandwidth field of SettingsModal\<close>

text \<open>\<open>value={Math.floor((s.bandwidth_limit_bps ?? 0) / 1024)}\<close>\<close>

definition bandwidth_value :: "'a SettingsSnapshot_scheme \<Rightarrow> number" where
  "bandwidth_value s =
     floor_div_1024 (case bandwidth_limit_bps s of None \<Rightarrow> Num 0 | Some b \<Rightarrow> b)"

text \<open>
  \<open>onChange\<close> of the field, with \<open>v\<close> the text \<open>e.target.value\<close>; the empty string is
  falsy.
\<close>

definition bandwidth_onChange :: "jsstring \<Rightarrow> 'a SettingsSnapshot_scheme \<Rightarrow> 'a SettingsSnapshot_scheme" where
  "bandwidth_onChange v s =
     (let kb = parseInt (if v = [] then js ''0'' else v)
      in s\<lparr>bandwidth_limit_bps := (if greater_0 kb then Some (times_1024 kb) else None)\<rparr>)"

section \<open>Example values\<close>

definition example_settings :: SettingsSnapshot where
  "example_settings =
     \<lparr>default_download_dir = js ''/home/u/Downloads'',
      bandwidth_limit_bps = Some (Num 500),
      minimize_to_tray = False,
      theme = dark,
      global_proxy_enabled = False,
      global_proxy_url = None,
      local_api_port = 7070\<rparr>"

text \<open>A record of the store with the given id and status, 40 of 100 bytes downloaded.\<close>

definition example_download :: "string \<Rightarrow> DownloadStatus \<Rightarrow> DownloadRecord" where
  "example_download i s =
     \<lparr>id = js i,
      created_at = js ''2025-12-26T10:00:00Z'',
      updated_at = js ''2025-12-26T10:00:05Z'',
      started_at = Some (js ''2025-12-26T10:00:01Z''),
      completed_at = None,
      forced_proxy = False,
      forced_proxy_url = None,
      original_url = js ''http://a/f.bin'',
      resolved_url = None,
      dest_dir = js ''/home/u/Downloads'',
      final_filename = Some (js ''f.bin''),
      temp_path = None,
      status = s,
      error_code = None,
      error_message = None,
      content_length = Some 100,
      etag = None,
      last_modified = None,
      bytes_downloaded = 40,
      supports_ranges = Some True,
      mirror_used = None,
      batch_id = None\<rparr>"

text \<open>A progress update for the given id: status \<open>DOWNLOADING\<close>, the given byte count.\<close>

definition example_progress :: "string \<Rightarrow> real \<Rightarrow> DownloadProgressUpdate" where
  "example_progress i b =
     \<lparr>DownloadProgressUpdate.id = js i,
      status = DOWNLOADING,
      bytes_downloaded = b,
      content_length = Some 100,
      speed_bps = 2048,
      eta_seconds = Some 3,
      error_code = None,
      error_message = None,
      updated_at = js ''2025-12-26T10:00:06Z''\<rparr>"

definition example_menu :: ctx_element where
  "example_menu =
     \<lparr>style_left = 0, style_top = 0, style_display = js ''none'',
      dataset_id = None, dataset_url = None, dataset_dest = None, dataset_status = None\<rparr>"

text \<open>
  A backend for examples: its state is the status of one download; pausing moves a
  download that is queued or running to \<open>PAUSED\<close>, resuming moves a paused one to
  \<open>QUEUED\<close>, and nothing else changes the status.
\<close>

fun example_invoke :: "command \<Rightarrow> DownloadStatus \<Rightarrow> DownloadStatus" where
  "example_invoke (cmd_pause_download i) s = (if s = DOWNLOADING \<or> s = QUEUED then PAUSED else s)"
| "example_invoke (cmd_resume_download i) s = (if s = PAUSED then QUEUED else s)"

section \<open>Properties of parseUrlsFromText\<close>

subsection \<open>The pieces of the split are the whitespace-separated tokens\<close>

lemma split_loop_unfold:
  "split_loop cur s =
     (cur @ takeWhile (\<lambda>c. \<not> is_space c) s) #
     (if dropWhile (\<lambda>c. \<not> is_space c) s = [] then []
      else split_loop [] (dropWhile is_space (dropWhile (\<lambda>c. \<not> is_space c) s)))"
  by (induction s arbitrary: cur) auto

lemma split_loop_no_space:
  "p \<in> set (split_loop cur s) \<Longrightarrow> \<forall>c\<in>set cur. \<not> is_space c \<Longrightarrow> \<forall>c\<in>set p. \<not> is_space c"
  by (induction cur s rule: split_loop.induct) (auto split: if_splits)

lemma trim_no_space: "\<forall>c\<in>set p. \<not> is_space c \<Longrightarrow> trim p = p"
proof -
  assume ns: "\<forall>c\<in>set p. \<not> is_space c"
  have "dropWhile is_space q = q" if "\<forall>c\<in>set q. \<not> is_space c" for q
    using that by (cases q) auto
  from this[of p] this[of "rev p"] ns show ?thesis by (simp add: trim_def)
qed

lemma ws_token_space_Cons:
  assumes "is_space c"
  shows "ws_token (c # s) p \<longleftrightarrow> ws_token s p"
proof
  assume "ws_token (c # s) p"
  then obtain pre post where p: "p \<noteq> []" "\<forall>c\<in>set p. \<not> is_space c"
    and eq: "c # s = pre @ p @ post"
    and b: "pre = [] \<or> is_space (last pre)" "post = [] \<or> is_space (hd post)"
    by (auto simp: ws_token_def)
  have "pre \<noteq> []"
  proof
    assume "pre = []"
    with eq p(1) have "hd p = c" by (cases p) auto
    with p assms show False by (cases p) auto
  qed
  then obtain pre' where pre: "pre = c # pre'" using eq by (cases pre) auto
  with eq have "s = pre' @ p @ post" by simp
  moreover have "pre' = [] \<or> is_space (last pre')" using b(1) pre by (auto split: if_splits)
  ultimately show "ws_token s p" using p b(2) by (auto simp: ws_token_def)
next
  assume "ws_token s p"
  then obtain pre post where p: "p \<noteq> []" "\<forall>c\<in>set p. \<not> is_space c"
    and eq: "s = pre @ p @ post"
    and b: "pre = [] \<or> is_space (last pre)" "post = [] \<or> is_space (hd post)"
    by (auto simp: ws_token_def)
  have "c # s = (c # pre) @ p @ post" using eq by simp
  moreover have "is_space (last (c # pre))" using b(1) assms by auto
  ultimately show "ws_token (c # s) p" using p b(2) unfolding ws_token_def by blast
qed

lemma ws_token_spaces:
  "\<forall>c\<in>set sp. is_space c \<Longrightarrow> ws_token (sp @ s) p \<longleftrightarrow> ws_token s p"
  by (induction sp) (auto simp: ws_token_space_Cons)

lemma ws_token_Nil: "\<not> ws_token [] p"
  by (auto simp: ws_token_def)

lemma ws_token_word:
  assumes w: "\<forall>c\<in>set w. \<not> is_space c" and r: "r = [] \<or> is_space (hd r)"
  shows "ws_token (w @ r) p \<longleftrightarrow> (p = w \<and> w \<noteq> []) \<or> ws_token r p"
proof
  assume "ws_token (w @ r) p"
  then obtain pre post where p: "p \<noteq> []" "\<forall>c\<in>set p. \<not> is_space c"
    and eq: "w @ r = pre @ p @ post"
    and b: "pre = [] \<or> is_space (last pre)" "post = [] \<or> is_space (hd post)"
    by (auto simp: ws_token_def)
  show "(p = w \<and> w \<noteq> []) \<or> ws_token r p"
  proof (cases "pre = []")
    case True
    have "takeWhile (\<lambda>c. \<not> is_space c) (w @ r) = w"
      using w r by (cases r) auto
    moreover have "takeWhile (\<lambda>c. \<not> is_space c) (p @ post) = p"
      using p b(2) by (cases post) auto
    ultimately have "p = w" using eq True by simp
    with p show ?thesis by simp
  next
    case False
    then have sp: "is_space (last pre)" using b by simp
    have "takeWhile (\<lambda>c. \<not> is_space c) (w @ r) = w"
      using w r by (cases r) auto
    moreover have "takeWhile (\<lambda>c. \<not> is_space c) (pre @ p @ post)
        = takeWhile (\<lambda>c. \<not> is_space c) pre"
      using False sp by (metis last_in_set takeWhile_append1)
    ultimately have wpre: "w = takeWhile (\<lambda>c. \<not> is_space c) pre" using eq by simp
    define pre' where "pre' = dropWhile (\<lambda>c. \<not> is_space c) pre"
    have pre: "pre = w @ pre'" by (simp add: wpre pre'_def)
    have ne: "pre' \<noteq> []" using False sp by (auto simp: pre'_def intro: last_in_set)
    have "r = pre' @ p @ post" using eq pre by simp
    moreover have "is_space (last pre')" using sp pre ne by simp
    ultimately show ?thesis using p b(2) unfolding ws_token_def by blast
  qed
next
  assume "(p = w \<and> w \<noteq> []) \<or> ws_token r p"
  then show "ws_token (w @ r) p"
  proof
    assume "p = w \<and> w \<noteq> []"
    then have "w @ r = [] @ p @ r" "p \<noteq> []" by simp_all
    then show ?thesis using w r \<open>p = w \<and> w \<noteq> []\<close> unfolding ws_token_def by blast
  next
    assume "ws_token r p"
    then obtain pre post where p: "p \<noteq> []" "\<forall>c\<in>set p. \<not> is_space c"
      and eq: "r = pre @ p @ post"
      and b: "pre = [] \<or> is_space (last pre)" "post = [] \<or> is_space (hd post)"
      by (auto simp: ws_token_def)
    have "pre \<noteq> []"
    proof
      assume "pre = []"
      with eq p r show False by (cases p) auto
    qed
    then have "is_space (last (w @ pre))" using b by simp
    moreover have "w @ r = (w @ pre) @ p @ post" using eq by simp
    ultimately show ?thesis using p b(2) unfolding ws_token_def by blast
  qed
qed

lemma split_loop_tokens:
  "p \<in> set (split_loop [] s) \<and> p \<noteq> [] \<longleftrightarrow> ws_token s p"
proof (induction s rule: length_induct)
  case (1 s)
  define w where "w = takeWhile (\<lambda>c. \<not> is_space c) s"
  define r where "r = dropWhile (\<lambda>c. \<not> is_space c) s"
  have s: "s = w @ r" by (simp add: w_def r_def)
  have w: "\<forall>c\<in>set w. \<not> is_space c" by (auto simp: w_def dest: set_takeWhileD)
  have r: "r = [] \<or> is_space (hd r)" using hd_dropWhile[of "\<lambda>c. \<not> is_space c" s] by (auto simp: r_def)
  have tok: "ws_token s p \<longleftrightarrow> (p = w \<and> w \<noteq> []) \<or> ws_token r p"
    unfolding s using w r by (rule ws_token_word)
  have unf: "split_loop [] s = w # (if r = [] then [] else split_loop [] (dropWhile is_space r))"
    using split_loop_unfold[of "[]" s] by (simp add: w_def r_def)
  show ?case
  proof (cases "r = []")
    case True
    then show ?thesis using tok unf by (auto simp: ws_token_Nil)
  next
    case False
    define r' where "r' = dropWhile is_space r"
    have "r = takeWhile is_space r @ r'" by (simp add: r'_def)
    then have "ws_token r p \<longleftrightarrow> ws_token r' p"
      using ws_token_spaces[of "takeWhile is_space r" r' p] by (auto dest: set_takeWhileD)
    moreover have "length r' < length s"
    proof -
      have "length r' < length r" using False r
        by (cases r) (auto simp: r'_def intro: le_imp_less_Suc length_dropWhile_le)
      moreover have "length r \<le> length s" by (simp add: r_def length_dropWhile_le)
      ultimately show ?thesis by simp
    qed
    then have "p \<in> set (split_loop [] r') \<and> p \<noteq> [] \<longleftrightarrow> ws_token r' p" using 1 by blast
    ultimately show ?thesis using tok unf False by (auto simp: r'_def)
  qed
qed

lemma set_parts: "p \<in> set (parts text) \<longleftrightarrow> ws_token text p"
proof -
  have "map trim (split_ws text) = split_ws text"
    by (rule map_idI) (auto simp: split_ws_def intro!: trim_no_space dest: split_loop_no_space)
  then show ?thesis using split_loop_tokens[of p "text"] by (auto simp: parts_def split_ws_def)
qed


text \<open>The loop never raises, and pushes the serialisation of each part that parses.\<close>

lemma try_catch_push_Inr:
  "try_catch_push new_URL p out =
     Inr (out @ (case new_URL p of
                   Inl e \<Rightarrow> []
                 | Inr u \<Rightarrow> if protocol u = js ''http:'' \<or> protocol u = js ''https:''
                           then [toString u] else []))"
  by (simp add: try_catch_push_def try_push_def split: sum.splits)

lemma for_of_parts_Inr:
  "\<exists>pushed. for_of_parts new_URL ps out = Inr (out @ pushed) \<and>
     set pushed = {toString u |p u. p \<in> set ps \<and> new_URL p = Inr u \<and>
                     (protocol u = js ''http:'' \<or> protocol u = js ''https:'')}"
proof (induction ps arbitrary: out)
  case Nil
  then show ?case by simp
next
  case (Cons p ps)
  define one where "one = (case new_URL p of
                   Inl e \<Rightarrow> []
                 | Inr u \<Rightarrow> if protocol u = js ''http:'' \<or> protocol u = js ''https:''
                           then [toString u] else [])"
  have step: "try_catch_push new_URL p out = Inr (out @ one)"
    by (simp add: try_catch_push_Inr one_def)
  from Cons.IH[of "out @ one"] obtain pushed where
    run: "for_of_parts new_URL ps (out @ one) = Inr ((out @ one) @ pushed)" and
    mem: "set pushed = {toString u |p u. p \<in> set ps \<and> new_URL p = Inr u \<and>
                     (protocol u = js ''http:'' \<or> protocol u = js ''https:'')}"
    by blast
  have one: "set one = {toString u |u. new_URL p = Inr u \<and>
                     (protocol u = js ''http:'' \<or> protocol u = js ''https:'')}"
    by (auto simp: one_def split: sum.splits)
  have "for_of_parts new_URL (p # ps) out = Inr (out @ (one @ pushed))"
    using step run by simp
  moreover have "set (one @ pushed) =
     {toString u |q u. q \<in> set (p # ps) \<and> new_URL q = Inr u \<and>
                     (protocol u = js ''http:'' \<or> protocol u = js ''https:'')}"
    unfolding set_append one mem by auto
  ultimately show ?case by blast
qed

lemma distinct_count_list_1: "distinct xs \<Longrightarrow> x \<in> set xs \<Longrightarrow> count_list xs x = 1"
  by (induction xs) auto

lemma set_foldl_Set_add: "set (foldl Set_add acc xs) = set acc \<union> set xs"
  by (induction xs arbitrary: acc) (auto simp: Set_add_def)

lemma distinct_foldl_Set_add: "distinct acc \<Longrightarrow> distinct (foldl Set_add acc xs)"
  by (induction xs arbitrary: acc) (auto simp: Set_add_def)

lemma Array_from_new_Set_snoc:
  "Array_from_new_Set (xs @ [x]) =
     (if x \<in> set xs then Array_from_new_Set xs else Array_from_new_Set xs @ [x])"
  by (simp add: Array_from_new_Set_def Set_add_def set_foldl_Set_add)

lemma Array_from_new_Set_first:
  "Array_from_new_Set xs =
     map (\<lambda>i. xs ! i) (filter (\<lambda>i. xs ! i \<notin> set (take i xs)) [0..<length xs])"
proof (induction xs rule: rev_induct)
  case Nil
  then show ?case by (simp add: Array_from_new_Set_def)
next
  case (snoc x xs)
  have f: "filter (\<lambda>i. (xs @ [x]) ! i \<notin> set (take i (xs @ [x]))) [0..<length xs]
         = filter (\<lambda>i. xs ! i \<notin> set (take i xs)) [0..<length xs]"
    by (rule filter_cong) (auto simp: nth_append)
  have m: "map (\<lambda>i. (xs @ [x]) ! i) (filter (\<lambda>i. xs ! i \<notin> set (take i xs)) [0..<length xs])
         = map (\<lambda>i. xs ! i) (filter (\<lambda>i. xs ! i \<notin> set (take i xs)) [0..<length xs])"
    by (rule map_cong) (auto simp: nth_append)
  have up: "[0..<length (xs @ [x])] = [0..<length xs] @ [length xs]"
    by simp
  have last_ix: "(xs @ [x]) ! length xs \<notin> set (take (length xs) (xs @ [x])) \<longleftrightarrow> x \<notin> set xs"
    by simp
  show ?case
  proof (cases "x \<in> set xs")
    case True
    then show ?thesis
      unfolding up filter_append map_append f
      by (simp add: Array_from_new_Set_snoc snoc.IH m)
  next
    case False
    then show ?thesis
      unfolding up filter_append map_append f
      by (simp add: Array_from_new_Set_snoc snoc.IH m)
  qed
qed

subsection \<open>Claims about parseUrlsFromText\<close>

text \<open>
  Claim C1, as amended. For every text and every behaviour of the \<open>URL\<close> constructor,
  \<open>parseUrlsFromText\<close> returns a list and never throws. A string is in the list exactly
  when it is the serialisation \<open>u.toString()\<close> of the URL \<open>u\<close> of some
  whitespace-separated token of the text that parses and whose protocol is \<open>http:\<close> or
  \<open>https:\<close>. Tokens that fail to parse or have another protocol contribute nothing.
  The list holds the serialisation, not the token itself.
\<close>

theorem parseUrlsFromText_serialisations:
  "\<exists>urls. parseUrlsFromText new_URL text = Inr urls \<and>
     (\<forall>s. s \<in> set urls \<longleftrightarrow>
        (\<exists>p u. ws_token text p \<and> new_URL p = Inr u \<and>
           (protocol u = js ''http:'' \<or> protocol u = js ''https:'') \<and> s = toString u))"
proof -
  from for_of_parts_Inr[of new_URL "parts text" "[]"] obtain out where
    run: "for_of_parts new_URL (parts text) [] = Inr out" and
    mem: "set out = {toString u |p u. p \<in> set (parts text) \<and> new_URL p = Inr u \<and>
                     (protocol u = js ''http:'' \<or> protocol u = js ''https:'')}"
    by auto
  have "parseUrlsFromText new_URL text = Inr (Array_from_new_Set out)"
    by (simp add: parseUrlsFromText_def run)
  moreover have "set (Array_from_new_Set out) = set out"
    by (simp add: Array_from_new_Set_def set_foldl_Set_add)
  ultimately show ?thesis unfolding mem set_parts by auto
qed

theorem parseUrlsFromText_serialisations_witness:
  "parseUrlsFromText example_URL (js '' ftp://d  http://a x https://b/c http://a'')
     = Inr [js ''http://a/'', js ''https://b/c''] \<and>
   (\<exists>p u. ws_token (js '' ftp://d  http://a x https://b/c http://a'') p \<and>
      example_URL p = Inr u \<and>
      (protocol u = js ''http:'' \<or> protocol u = js ''https:'') \<and>
      js ''https://b/c'' = toString u)"
proof -
  let ?t = "js '' ftp://d  http://a x https://b/c http://a''"
  have ev: "parseUrlsFromText example_URL ?t = Inr [js ''http://a/'', js ''https://b/c'']"
    by (simp add: parseUrlsFromText_def parts_def split_ws_def trim_def js_def is_space_def
        example_URL_def try_catch_push_def try_push_def Array_from_new_Set_def Set_add_def)
  from parseUrlsFromText_serialisations[of example_URL ?t] obtain urls where
    u: "parseUrlsFromText example_URL ?t = Inr urls" and
    m: "\<forall>s. s \<in> set urls \<longleftrightarrow>
        (\<exists>p u. ws_token ?t p \<and> example_URL p = Inr u \<and>
           (protocol u = js ''http:'' \<or> protocol u = js ''https:'') \<and> s = toString u)"
    by blast
  from u ev have "urls = [js ''http://a/'', js ''https://b/c'']" by simp
  then have "js ''https://b/c'' \<in> set urls" by simp
  with m have "\<exists>p u. ws_token ?t p \<and> example_URL p = Inr u \<and>
           (protocol u = js ''http:'' \<or> protocol u = js ''https:'') \<and>
           js ''https://b/c'' = toString u"
    by blast
  with ev show ?thesis by blast
qed

text \<open>
  Claim C1 as stated fails: for the text \<open>http://a\<close> the only token is \<open>http://a\<close>, and
  the list returned holds \<open>http://a/\<close>, the serialisation of its URL, which is not a
  token of the text.
\<close>

theorem parseUrlsFromText_result_not_a_token:
  "parts (js ''http://a'') = [js ''http://a''] \<and>
   parseUrlsFromText example_URL (js ''http://a'') = Inr [js ''http://a/''] \<and>
   \<not> ws_token (js ''http://a'') (js ''http://a/'')"
proof -
  have "parts (js ''http://a'') = [js ''http://a'']"
    by (simp add: parts_def split_ws_def trim_def js_def is_space_def)
  moreover have "parseUrlsFromText example_URL (js ''http://a'') = Inr [js ''http://a/'']"
    by (simp add: parseUrlsFromText_def parts_def split_ws_def trim_def js_def is_space_def
        example_URL_def try_catch_push_def try_push_def Array_from_new_Set_def Set_add_def)
  moreover have "\<not> ws_token (js ''http://a'') (js ''http://a/'')"
  proof
    assume "ws_token (js ''http://a'') (js ''http://a/'')"
    then obtain pre post where "js ''http://a'' = pre @ js ''http://a/'' @ post"
      by (auto simp: ws_token_def)
    then have "length (js ''http://a'') = length (pre @ js ''http://a/'' @ post)"
      by simp
    then show False by (simp add: js_def)
  qed
  ultimately show ?thesis by blast
qed

text \<open>
  Claim C9. The list returned has no duplicates: with \<open>out\<close> the array of the
  serialisations pushed by the loop, in the order of the tokens, the result consists of
  the elements of \<open>out\<close> at the positions where they occur for the first time, in that
  order; it is distinct, it has the same elements as \<open>out\<close>, and each of them occurs in
  it exactly once, however often it occurs in \<open>out\<close>.
\<close>

theorem parseUrlsFromText_distinct_first_occurrence:
  "\<exists>out urls. for_of_parts new_URL (parts text) [] = Inr out \<and>
     parseUrlsFromText new_URL text = Inr urls \<and>
     urls = map (\<lambda>i. out ! i) (filter (\<lambda>i. out ! i \<notin> set (take i out)) [0..<length out]) \<and>
     distinct urls \<and> set urls = set out \<and>
     (\<forall>u\<in>set out. count_list urls u = 1)"
proof -
  from for_of_parts_Inr[of new_URL "parts text" "[]"] obtain out where
    run: "for_of_parts new_URL (parts text) [] = Inr out" by auto
  have res: "parseUrlsFromText new_URL text = Inr (Array_from_new_Set out)"
    by (simp add: parseUrlsFromText_def run)
  have d: "distinct (Array_from_new_Set out)"
    by (simp add: Array_from_new_Set_def distinct_foldl_Set_add)
  have s: "set (Array_from_new_Set out) = set out"
    by (simp add: Array_from_new_Set_def set_foldl_Set_add)
  have "\<forall>u\<in>set out. count_list (Array_from_new_Set out) u = 1"
    using d s by (simp add: distinct_count_list_1)
  then show ?thesis using run res d s Array_from_new_Set_first[of out] by blast
qed

theorem parseUrlsFromText_distinct_first_occurrence_witness:
  "for_of_parts example_URL (parts (js ''http://a http://a  https://b/c ftp://d http://a'')) []
     = Inr [js ''http://a/'', js ''http://a/'', js ''https://b/c'', js ''http://a/''] \<and>
   parseUrlsFromText example_URL (js ''http://a http://a  https://b/c ftp://d http://a'')
     = Inr [js ''http://a/'', js ''https://b/c''] \<and>
   distinct [js ''http://a/'', js ''https://b/c''] \<and>
   count_list [js ''http://a/'', js ''https://b/c''] (js ''http://a/'') = 1"
proof -
  let ?t = "js ''http://a http://a  https://b/c ftp://d http://a''"
  have out: "for_of_parts example_URL (parts ?t) []
     = Inr [js ''http://a/'', js ''http://a/'', js ''https://b/c'', js ''http://a/'']"
    by (simp add: parts_def split_ws_def trim_def js_def is_space_def
        example_URL_def try_catch_push_def try_push_def)
  have ev: "parseUrlsFromText example_URL ?t = Inr [js ''http://a/'', js ''https://b/c'']"
    unfolding parseUrlsFromText_def out
    by (simp add: Array_from_new_Set_def Set_add_def js_def)
  from parseUrlsFromText_distinct_first_occurrence[of example_URL ?t] obtain out' urls where
    o: "for_of_parts example_URL (parts ?t) [] = Inr out'" and
    u: "parseUrlsFromText example_URL ?t = Inr urls" and
    d: "distinct urls" and
    c: "\<forall>u\<in>set out'. count_list urls u = 1"
    by blast
  from u ev have urls: "urls = [js ''http://a/'', js ''https://b/c'']" by simp
  from o out have "js ''http://a/'' \<in> set out'" by auto
  with c have "count_list urls (js ''http://a/'') = 1" by blast
  with d out ev show ?thesis unfolding urls by blast
qed

section \<open>Properties of the types\<close>

lemma DownloadStatus_UNIV: "(UNIV :: DownloadStatus set) = {QUEUED, DOWNLOADING, PAUSED, COMPLETED, ERROR}"
  using DownloadStatus.exhaust by auto

lemma DownloadStatus_str_inj: "DownloadStatus_str a = DownloadStatus_str b \<longleftrightarrow> a = b"
  by (cases a; cases b) (simp_all add: js_def)

lemma ErrorCode_UNIV:
  "(UNIV :: ErrorCode set) =
     {DNS_FAIL, CONNECT_FAIL, TLS_FAIL, HTTP_4XX, HTTP_5XX, TIMEOUT, RANGE_UNSUPPORTED,
      DISK_FULL, REMOTE_CHANGED, PERMISSION_DENIED, CANCELLED, INVALID_URL, UNKNOWN}"
  using ErrorCode.exhaust by auto

lemma ErrorCode_str_inj: "ErrorCode_str a = ErrorCode_str b \<longleftrightarrow> a = b"
  by (cases a; cases b) (simp_all add: js_def)

lemma DownloadStatus_str_PAUSED: "DownloadStatus_str s = js ''PAUSED'' \<longleftrightarrow> s = PAUSED"
  using DownloadStatus_str_inj[of s PAUSED] by simp

text \<open>
  Claim C2, as amended. The interface \<open>SettingsSnapshot\<close> declares a field for each of:
  the default download directory, the global bandwidth limit in bytes per second (a
  number or \<open>null\<close>), the global proxy flag and the proxy URL, the tray preference, the
  theme and the local API port. It declares no field for the local API token.
\<close>

theorem SettingsSnapshot_declared_fields:
  "map_of SettingsSnapshot_fields ''default_download_dir'' = Some TString \<and>
   map_of SettingsSnapshot_fields ''bandwidth_limit_bps'' = Some (TUnion [TNumber, TNull]) \<and>
   map_of SettingsSnapshot_fields ''global_proxy_enabled'' = Some TBoolean \<and>
   map_of SettingsSnapshot_fields ''global_proxy_url'' = Some (TUnion [TString, TNull]) \<and>
   map_of SettingsSnapshot_fields ''minimize_to_tray'' = Some TBoolean \<and>
   map_of SettingsSnapshot_fields ''theme'' =
     Some (TUnion [TLiteral ''dark'', TLiteral ''mirage'', TLiteral ''light'']) \<and>
   map_of SettingsSnapshot_fields ''local_api_port'' = Some TNumber \<and>
   map_of SettingsSnapshot_fields ''local_api_token'' = None"
  by (simp add: SettingsSnapshot_fields_def)

text \<open>
  Claim C2 as stated fails: of the fields the specification lists, \<open>local_api_token\<close> is
  not a field of \<open>SettingsSnapshot\<close>.
\<close>

theorem SettingsSnapshot_lacks_local_api_token:
  "\<not> set spec_Settings_fields \<subseteq> fst ` set SettingsSnapshot_fields \<and>
   ''local_api_token'' \<in> set spec_Settings_fields \<and>
   ''local_api_token'' \<notin> fst ` set SettingsSnapshot_fields"
  by (simp add: spec_Settings_fields_def SettingsSnapshot_fields_def)

text \<open>
  Claim C3, as amended. \<open>ErrorCode\<close> has exactly thirteen members, and they are the
  thirteen distinct strings of the taxonomy. Of the error, the status cell of a row
  shows the message only, and only in a row whose status is \<open>ERROR\<close>: unchanged, the
  message of the progress update when the update has one, else the message of the
  record, and the fixed text \<open>Error\<close> when both are \<open>null\<close>. The error code is not
  shown: the cell is the same whatever the \<open>error_code\<close> of the record and of the update.
\<close>

theorem ErrorCode_thirteen_and_status_cell:
  "(UNIV :: ErrorCode set) =
     {DNS_FAIL, CONNECT_FAIL, TLS_FAIL, HTTP_4XX, HTTP_5XX, TIMEOUT, RANGE_UNSUPPORTED,
      DISK_FULL, REMOTE_CHANGED, PERMISSION_DENIED, CANCELLED, INVALID_URL, UNKNOWN} \<and>
   card (UNIV :: ErrorCode set) = 13 \<and>
   inj ErrorCode_str \<and>
   range ErrorCode_str =
     js ` {''DNS_FAIL'', ''CONNECT_FAIL'', ''TLS_FAIL'', ''HTTP_4XX'', ''HTTP_5XX'', ''TIMEOUT'',
           ''RANGE_UNSUPPORTED'', ''DISK_FULL'', ''REMOTE_CHANGED'', ''PERMISSION_DENIED'',
           ''CANCELLED'', ''INVALID_URL'', ''UNKNOWN''} \<and>
   status_cell p d =
     (if row_status p d \<noteq> ERROR then DownloadStatus_str (row_status p d)
      else case row_err p d of Some m \<Rightarrow> m | None \<Rightarrow> js ''Error'') \<and>
   row_err p d =
     (case p of
        None \<Rightarrow> DownloadRecord.error_message d
      | Some u \<Rightarrow>
          (case DownloadProgressUpdate.error_message u of
             None \<Rightarrow> DownloadRecord.error_message d
           | Some m \<Rightarrow> Some m)) \<and>
   status_cell p (d\<lparr>DownloadRecord.error_code := c\<rparr>) = status_cell p d \<and>
   status_cell (map_option (\<lambda>u. u\<lparr>DownloadProgressUpdate.error_code := c\<rparr>) p) d = status_cell p d"
proof -
  have "card (UNIV :: ErrorCode set) = 13"
    unfolding ErrorCode_UNIV by simp
  moreover have "inj ErrorCode_str"
    by (simp add: inj_on_def ErrorCode_str_inj)
  moreover have "range ErrorCode_str =
     js ` {''DNS_FAIL'', ''CONNECT_FAIL'', ''TLS_FAIL'', ''HTTP_4XX'', ''HTTP_5XX'', ''TIMEOUT'',
           ''RANGE_UNSUPPORTED'', ''DISK_FULL'', ''REMOTE_CHANGED'', ''PERMISSION_DENIED'',
           ''CANCELLED'', ''INVALID_URL'', ''UNKNOWN''}"
    unfolding ErrorCode_UNIV by simp
  moreover have "status_cell p (d\<lparr>DownloadRecord.error_code := c\<rparr>) = status_cell p d"
    by (simp add: status_cell_def row_status_def row_err_def split: option.splits)
  moreover have "status_cell (map_option (\<lambda>u. u\<lparr>DownloadProgressUpdate.error_code := c\<rparr>) p) d = status_cell p d"
    by (cases p) (simp_all add: status_cell_def row_status_def row_err_def split: option.splits)
  ultimately show ?thesis
    using ErrorCode_UNIV by (simp add: status_cell_def row_err_def)
qed

text \<open>
  Claim C3 as stated fails: a record in status \<open>ERROR\<close> with the code \<open>TIMEOUT\<close> and no
  message is shown as \<open>Error\<close>, and with the message \<open>stalled\<close> as \<open>stalled\<close>; neither
  cell shows the code.
\<close>

theorem status_cell_not_error_code:
  "status_cell None ((example_download ''x'' ERROR)\<lparr>DownloadRecord.error_code := Some TIMEOUT\<rparr>) = js ''Error'' \<and>
   js ''Error'' \<noteq> ErrorCode_str TIMEOUT \<and>
   status_cell None ((example_download ''x'' ERROR)
       \<lparr>DownloadRecord.error_code := Some TIMEOUT, DownloadRecord.error_message := Some (js ''stalled'')\<rparr>)
     = js ''stalled'' \<and>
   js ''stalled'' \<noteq> ErrorCode_str TIMEOUT"
  by (simp add: status_cell_def row_status_def row_err_def example_download_def js_def)

section \<open>Properties of statusSummary\<close>

lemma counts_foldl:
  "foldl (\<lambda>counts d. counts(DownloadRecord.status d := counts (DownloadRecord.status d) + 1)) c ds s
     = c s + length (filter (\<lambda>d. DownloadRecord.status d = s) ds)"
  by (induction ds arbitrary: c) auto

lemma statusSummary_counts_filter:
  "statusSummary_counts ds s = length (filter (\<lambda>d. DownloadRecord.status d = s) ds)"
  unfolding statusSummary_counts_def counts_foldl by simp

lemma length_by_status:
  "length (filter (\<lambda>d. DownloadRecord.status d = QUEUED) ds) +
   length (filter (\<lambda>d. DownloadRecord.status d = DOWNLOADING) ds) +
   length (filter (\<lambda>d. DownloadRecord.status d = PAUSED) ds) +
   length (filter (\<lambda>d. DownloadRecord.status d = COMPLETED) ds) +
   length (filter (\<lambda>d. DownloadRecord.status d = ERROR) ds) = length ds"
proof (induction ds)
  case Nil
  then show ?case by simp
next
  case (Cons d ds)
  then show ?case by (cases "DownloadRecord.status d") simp_all
qed

text \<open>
  Claim C6. A status is one of the five values \<open>QUEUED\<close>, \<open>DOWNLOADING\<close>, \<open>PAUSED\<close>,
  \<open>COMPLETED\<close>, \<open>ERROR\<close>, which are distinct. The counter that \<open>statusSummary\<close> computes
  for a status is the number of downloads of the list with that status, and the five
  counters sum to the length of the list.
\<close>

theorem statusSummary_counts_partition:
  "(UNIV :: DownloadStatus set) = {QUEUED, DOWNLOADING, PAUSED, COMPLETED, ERROR} \<and>
   card (UNIV :: DownloadStatus set) = 5 \<and>
   statusSummary_counts ds QUEUED + statusSummary_counts ds DOWNLOADING +
   statusSummary_counts ds PAUSED + statusSummary_counts ds COMPLETED +
   statusSummary_counts ds ERROR = length ds \<and>
   statusSummary_counts ds s = length (filter (\<lambda>d. DownloadRecord.status d = s) ds)"
proof -
  have "card (UNIV :: DownloadStatus set) = 5"
    unfolding DownloadStatus_UNIV by simp
  then show ?thesis
    using DownloadStatus_UNIV length_by_status[of ds] by (simp add: statusSummary_counts_filter)
qed

section \<open>Properties of the progress map\<close>

lemma refreshDownloads_obj_get:
  assumes "refreshDownloads (Inr list) st = Inr st'"
  shows "obj_get (progressById st') k = (if k \<in> DownloadRecord.id ` {d \<in> set list. DownloadRecord.status d = DOWNLOADING \<or> DownloadRecord.status d = QUEUED} then own (progressById st) k else None)"
proof -
  from assms have "progressById st' =
    \<lparr>own = (\<lambda>k. if k \<in> DownloadRecord.id ` {d \<in> set list. DownloadRecord.status d = DOWNLOADING \<or> DownloadRecord.status d = QUEUED} \<and> k \<noteq> js ''__proto__'' then own (progressById st) k else None),
     proto = (if js ''__proto__'' \<in> DownloadRecord.id ` {d \<in> set list. DownloadRecord.status d = DOWNLOADING \<or> DownloadRecord.status d = QUEUED} then own (progressById st) (js ''__proto__'') else None)\<rparr>"
    by (auto simp: refreshDownloads_def Let_def)
  then show ?thesis
    by (simp add: obj_get_def split: option.splits)
qed

lemma refreshDownloads_Inr:
  "\<exists>st'. refreshDownloads (Inr list) st = Inr st' \<and> downloads st' = list \<and>
     {k. obj_get (progressById st') k \<noteq> None} \<subseteq> DownloadRecord.id ` {d \<in> set list. DownloadRecord.status d = DOWNLOADING \<or> DownloadRecord.status d = QUEUED} \<and>
     (\<forall>k\<in>{k. obj_get (progressById st') k \<noteq> None}.
        obj_get (progressById st') k = own (progressById st) k) \<and>
     dom (own (progressById st')) \<subseteq> DownloadRecord.id ` {d \<in> set list. DownloadRecord.status d = DOWNLOADING \<or> DownloadRecord.status d = QUEUED} \<and>
     (\<forall>k\<in>dom (own (progressById st')). own (progressById st') k = own (progressById st) k) \<and>
     (distinct (map DownloadRecord.id list) \<longrightarrow>
        (\<forall>d\<in>set list. DownloadRecord.status d \<in> {COMPLETED, PAUSED, ERROR} \<longrightarrow>
           row_p st' d = None \<and> displayed_status st' d = DownloadRecord.status d))"
proof -
  define active where "active = DownloadRecord.id ` {d \<in> set list. DownloadRecord.status d = DOWNLOADING \<or> DownloadRecord.status d = QUEUED}"
  define prev where "prev = progressById st"
  define next' where "next' =
    \<lparr>own = (\<lambda>k. if k \<in> active \<and> k \<noteq> js ''__proto__'' then own prev k else None),
     proto = (if js ''__proto__'' \<in> active then own prev (js ''__proto__'') else None)\<rparr>"
  define st' where "st' = st\<lparr>downloads := list, progressById := next'\<rparr>"
  have run: "refreshDownloads (Inr list) st = Inr st'"
    unfolding st'_def next'_def prev_def active_def
    by (simp add: refreshDownloads_def Let_def)
  have dl: "downloads st' = list" by (simp add: st'_def)
  have pm: "progressById st' = next'" by (simp add: st'_def)
  have get: "obj_get next' k = (if k \<in> active then own prev k else None)" for k
    by (simp add: obj_get_def next'_def split: option.splits)
  have sub: "{k. obj_get (progressById st') k \<noteq> None} \<subseteq> active"
    by (auto simp: pm get split: if_splits)
  have keep: "\<forall>k\<in>{k. obj_get (progressById st') k \<noteq> None}.
      obj_get (progressById st') k = own (progressById st) k"
    by (auto simp: pm get prev_def split: if_splits)
  have sub': "dom (own (progressById st')) \<subseteq> active"
    by (auto simp: pm next'_def split: if_splits)
  have keep': "\<forall>k\<in>dom (own (progressById st')). own (progressById st') k = own (progressById st) k"
    by (auto simp: pm next'_def prev_def split: if_splits)
  have shown: "row_p st' d = None \<and> displayed_status st' d = DownloadRecord.status d"
    if dist: "distinct (map DownloadRecord.id list)" and d: "d \<in> set list"
      and fin: "DownloadRecord.status d \<in> {COMPLETED, PAUSED, ERROR}" for d
  proof -
    have "DownloadRecord.id d \<notin> active"
    proof
      assume "DownloadRecord.id d \<in> active"
      then obtain e where e: "e \<in> set list" "DownloadRecord.id e = DownloadRecord.id d"
        "DownloadRecord.status e = DOWNLOADING \<or> DownloadRecord.status e = QUEUED"
        by (auto simp: active_def)
      from dist have "inj_on DownloadRecord.id (set list)" by (simp add: distinct_map)
      with e(1,2) d have "e = d" by (auto dest: inj_onD)
      with e(3) fin show False by auto
    qed
    then have "row_p st' d = None" by (simp add: row_p_def pm get)
    then show ?thesis by (simp add: displayed_status_def row_status_def)
  qed
  show ?thesis
    using run dl sub keep sub' keep' shown unfolding active_def by blast
qed

text \<open>
  Claim C4. Take any state \<open>st\<close> and any progress batches merged into it, and then a
  refresh with the list \<open>list\<close> of the store. The state after the refresh has the
  downloads \<open>list\<close>, and its progress map gives an entry only for ids of downloads of
  \<open>list\<close> in status \<open>DOWNLOADING\<close> or \<open>QUEUED\<close>, each entry as it was among the own
  properties before the refresh. Ids being unique in the list, a download of the list in
  status \<open>COMPLETED\<close>, \<open>PAUSED\<close> or \<open>ERROR\<close> then has no entry, and its row shows the
  status of the record: no update merged before the refresh shows through.
\<close>

theorem refreshDownloads_keeps_active_progress_only:
  "\<exists>st'. refreshDownloads (Inr list) (foldl (\<lambda>s b. on_progress_batch b s) st batches) = Inr st' \<and>
     downloads st' = list \<and>
     {k. obj_get (progressById st') k \<noteq> None} \<subseteq> DownloadRecord.id ` {d \<in> set list. DownloadRecord.status d = DOWNLOADING \<or> DownloadRecord.status d = QUEUED} \<and>
     (\<forall>k\<in>{k. obj_get (progressById st') k \<noteq> None}.
        obj_get (progressById st') k =
          own (progressById (foldl (\<lambda>s b. on_progress_batch b s) st batches)) k) \<and>
     dom (own (progressById st')) \<subseteq> DownloadRecord.id ` {d \<in> set list. DownloadRecord.status d = DOWNLOADING \<or> DownloadRecord.status d = QUEUED} \<and>
     (\<forall>k\<in>dom (own (progressById st')).
        own (progressById st') k =
          own (progressById (foldl (\<lambda>s b. on_progress_batch b s) st batches)) k) \<and>
     (distinct (map DownloadRecord.id list) \<longrightarrow>
        (\<forall>d\<in>set list. DownloadRecord.status d \<in> {COMPLETED, PAUSED, ERROR} \<longrightarrow>
           row_p st' d = None \<and> displayed_status st' d = DownloadRecord.status d))"
  by (rule refreshDownloads_Inr)

theorem refreshDownloads_keeps_active_progress_only_witness:
  "displayed_status
     (foldl (\<lambda>s b. on_progress_batch b s)
        \<lparr>downloads = [example_download ''a'' DOWNLOADING, example_download ''b'' DOWNLOADING],
         progressById = \<lparr>own = Map.empty, proto = None\<rparr>\<rparr>
        [Some [example_progress ''a'' 90, example_progress ''b'' 50]])
     (example_download ''a'' COMPLETED) = DOWNLOADING \<and>
   distinct (map DownloadRecord.id [example_download ''a'' COMPLETED, example_download ''b'' DOWNLOADING]) \<and>
   (\<exists>st'. refreshDownloads (Inr [example_download ''a'' COMPLETED, example_download ''b'' DOWNLOADING])
       (foldl (\<lambda>s b. on_progress_batch b s)
          \<lparr>downloads = [example_download ''a'' DOWNLOADING, example_download ''b'' DOWNLOADING],
           progressById = \<lparr>own = Map.empty, proto = None\<rparr>\<rparr>
          [Some [example_progress ''a'' 90, example_progress ''b'' 50]])
       = Inr st' \<and>
     displayed_status st' (example_download ''a'' COMPLETED) = COMPLETED \<and>
     obj_get (progressById st') (js ''a'') = None \<and>
     obj_get (progressById st') (js ''b'') = Some (example_progress ''b'' 50))"
proof -
  let ?l = "[example_download ''a'' COMPLETED, example_download ''b'' DOWNLOADING]"
  let ?st = "\<lparr>downloads = [example_download ''a'' DOWNLOADING, example_download ''b'' DOWNLOADING],
      progressById = \<lparr>own = Map.empty, proto = None\<rparr>\<rparr>"
  let ?bs = "[Some [example_progress ''a'' 90, example_progress ''b'' 50]]"
  let ?pre = "foldl (\<lambda>s b. on_progress_batch b s) ?st ?bs"
  have pre: "progressById ?pre =
      \<lparr>own = [js ''a'' \<mapsto> example_progress ''a'' 90, js ''b'' \<mapsto> example_progress ''b'' 50],
       proto = None\<rparr>"
    by (simp add: on_progress_batch_def obj_spread_def obj_set_def example_progress_def js_def)
  have dist: "distinct (map DownloadRecord.id ?l)"
    by (simp add: example_download_def js_def)
  from refreshDownloads_keeps_active_progress_only[of ?l ?st ?bs] obtain st' where
    run: "refreshDownloads (Inr ?l) ?pre = Inr st'" and
    shown: "distinct (map DownloadRecord.id ?l) \<longrightarrow>
        (\<forall>d\<in>set ?l. DownloadRecord.status d \<in> {COMPLETED, PAUSED, ERROR} \<longrightarrow>
           row_p st' d = None \<and> displayed_status st' d = DownloadRecord.status d)"
    by blast
  from shown dist have a: "row_p st' (example_download ''a'' COMPLETED) = None"
    "displayed_status st' (example_download ''a'' COMPLETED) = COMPLETED"
    by (simp_all add: example_download_def)
  from a(1) have "obj_get (progressById st') (js ''a'') = None"
    by (simp add: row_p_def example_download_def)
  moreover have "obj_get (progressById st') (js ''b'') = Some (example_progress ''b'' 50)"
  proof -
    have "js ''b'' \<in> DownloadRecord.id `
        {d \<in> set ?l. DownloadRecord.status d = DOWNLOADING \<or> DownloadRecord.status d = QUEUED}"
      by (rule image_eqI[where x = "example_download ''b'' DOWNLOADING"])
        (simp_all add: example_download_def)
    with refreshDownloads_obj_get[OF run, of "js ''b''"]
    have "obj_get (progressById st') (js ''b'') = own (progressById ?pre) (js ''b'')"
      by (simp only: if_True)
    then show ?thesis unfolding pre by (simp add: js_def)
  qed
  moreover have "displayed_status ?pre (example_download ''a'' COMPLETED) = DOWNLOADING"
    unfolding displayed_status_def row_p_def pre
    by (simp add: obj_get_def row_status_def example_download_def example_progress_def js_def)
  ultimately show ?thesis using run dist a(2) by blast
qed

section \<open>Properties of the event listeners\<close>

lemma foldl_obj_set_own:
  "k \<noteq> js ''__proto__'' \<Longrightarrow>
   own (foldl (\<lambda>next u. obj_set next (DownloadProgressUpdate.id u) u) obj batch) k =
     (case find (\<lambda>u. DownloadProgressUpdate.id u = k) (rev batch) of
        Some u \<Rightarrow> Some u
      | None \<Rightarrow> own obj k)"
  by (induction batch rule: rev_induct) (auto simp: obj_set_def)

lemma on_progress_batch_lookup:
  assumes "k \<noteq> js ''__proto__''"
  shows "obj_get (progressById (on_progress_batch payload st)) k =
     (case find (\<lambda>u. DownloadProgressUpdate.id u = k) (rev (case payload of None \<Rightarrow> [] | Some b \<Rightarrow> b)) of
        Some u \<Rightarrow> Some u
      | None \<Rightarrow> obj_get (progressById st) k)"
proof -
  have g: "obj_get obj k = own obj k" for obj
    using assms by (simp add: obj_get_def split: option.splits)
  show ?thesis
    by (simp add: on_progress_batch_def Let_def g foldl_obj_set_own[OF assms] obj_spread_def
        split: option.splits)
qed

lemma emit_simps:
  "emit EVENT_PROGRESS_BATCH payload reply st = Inr (on_progress_batch payload st)"
  "emit EVENT_DOWNLOADS_CHANGED payload reply st = refreshDownloads reply st"
  "name \<noteq> EVENT_PROGRESS_BATCH \<Longrightarrow> name \<noteq> EVENT_DOWNLOADS_CHANGED \<Longrightarrow> emit name payload reply st = Inr st"
  by (auto simp: emit_def listeners_def EVENT_PROGRESS_BATCH_def EVENT_DOWNLOADS_CHANGED_def js_def
      split: sum.splits)

text \<open>
  What holds of claim C5: the component registers two listeners, for the events
  \<open>zdmr://progress_batch\<close> and \<open>zdmr://downloads_changed\<close>, and an event of any other
  name changes nothing. A progress batch leaves the download list as it is; for every id
  but \<open>__proto__\<close> the map then gives the last update of the batch with that id, and
  what it gave before when the batch has none; a missing or empty payload leaves the
  state as it is. A change event runs \<open>refreshDownloads\<close>, which replaces the download
  list by the list the store returns.
\<close>

lemma event_listeners_other_ids:
  "map fst listeners = [js ''zdmr://progress_batch'', js ''zdmr://downloads_changed''] \<and>
   EVENT_PROGRESS_BATCH = js ''zdmr://progress_batch'' \<and>
   EVENT_DOWNLOADS_CHANGED = js ''zdmr://downloads_changed'' \<and>
   EVENT_PROGRESS_BATCH \<noteq> EVENT_DOWNLOADS_CHANGED \<and>
   (\<exists>st'. emit EVENT_PROGRESS_BATCH payload reply st = Inr st' \<and>
      downloads st' = downloads st \<and>
      (\<forall>k. k \<noteq> js ''__proto__'' \<longrightarrow>
         obj_get (progressById st') k =
         (case find (\<lambda>u. DownloadProgressUpdate.id u = k)
                 (rev (case payload of None \<Rightarrow> [] | Some b \<Rightarrow> b)) of
            Some u \<Rightarrow> Some u
          | None \<Rightarrow> obj_get (progressById st) k))) \<and>
   emit EVENT_PROGRESS_BATCH None reply st = Inr st \<and>
   emit EVENT_PROGRESS_BATCH (Some []) reply st = Inr st \<and>
   emit EVENT_DOWNLOADS_CHANGED payload reply st = refreshDownloads reply st \<and>
   (\<exists>st'. emit EVENT_DOWNLOADS_CHANGED payload (Inr list) st = Inr st' \<and> downloads st' = list) \<and>
   (name \<notin> {EVENT_PROGRESS_BATCH, EVENT_DOWNLOADS_CHANGED} \<longrightarrow> emit name payload reply st = Inr st)"
proof -
  have names: "map fst listeners = [js ''zdmr://progress_batch'', js ''zdmr://downloads_changed'']"
    by (simp add: listeners_def EVENT_PROGRESS_BATCH_def EVENT_DOWNLOADS_CHANGED_def)
  have ne: "EVENT_PROGRESS_BATCH \<noteq> EVENT_DOWNLOADS_CHANGED"
    by (simp add: EVENT_PROGRESS_BATCH_def EVENT_DOWNLOADS_CHANGED_def js_def)
  have dl: "downloads (on_progress_batch payload st) = downloads st"
    by (simp add: on_progress_batch_def Let_def)
  have e1: "on_progress_batch None st = st" "on_progress_batch (Some []) st = st"
    by (simp_all add: on_progress_batch_def)
  have r: "\<exists>st'. refreshDownloads (Inr list) st = Inr st' \<and> downloads st' = list"
    by (simp add: refreshDownloads_def Let_def)
  have pb: "\<exists>st'. emit EVENT_PROGRESS_BATCH payload reply st = Inr st' \<and>
      downloads st' = downloads st \<and>
      (\<forall>k. k \<noteq> js ''__proto__'' \<longrightarrow>
         obj_get (progressById st') k =
         (case find (\<lambda>u. DownloadProgressUpdate.id u = k)
                 (rev (case payload of None \<Rightarrow> [] | Some b \<Rightarrow> b)) of
            Some u \<Rightarrow> Some u
          | None \<Rightarrow> obj_get (progressById st) k))"
    using dl on_progress_batch_lookup[of _ payload st] by (simp add: emit_simps)
  have other: "name \<notin> {EVENT_PROGRESS_BATCH, EVENT_DOWNLOADS_CHANGED} \<longrightarrow>
      emit name payload reply st = Inr st"
    by (simp add: emit_simps)
  show ?thesis
    using names ne pb e1 r other
    by (simp add: emit_simps(1,2) EVENT_PROGRESS_BATCH_def[symmetric] EVENT_DOWNLOADS_CHANGED_def[symmetric])
qed

text \<open>
  Claim C5, at the id \<open>__proto__\<close>. A batch with one update of that id creates no own
  property of the map: the update becomes the prototype of the new object, where the
  row of the download with that id finds it. The next batch, here one update for the id
  \<open>x\<close>, builds its object from the own properties alone, and the row finds nothing any
  more: the merge of a batch has changed what the map gives for an id that is not in it.
\<close>

theorem progress_batch_proto_entry_lost:
  "emit EVENT_PROGRESS_BATCH (Some [example_progress ''__proto__'' 10]) (Inr [])
     \<lparr>downloads = [example_download ''__proto__'' DOWNLOADING],
      progressById = \<lparr>own = Map.empty, proto = None\<rparr>\<rparr>
     = Inr \<lparr>downloads = [example_download ''__proto__'' DOWNLOADING],
            progressById = \<lparr>own = Map.empty, proto = Some (example_progress ''__proto__'' 10)\<rparr>\<rparr> \<and>
   row_p \<lparr>downloads = [example_download ''__proto__'' DOWNLOADING],
          progressById = \<lparr>own = Map.empty, proto = Some (example_progress ''__proto__'' 10)\<rparr>\<rparr>
     (example_download ''__proto__'' DOWNLOADING) = Some (example_progress ''__proto__'' 10) \<and>
   DownloadProgressUpdate.id (example_progress ''x'' 5) \<noteq> js ''__proto__'' \<and>
   emit EVENT_PROGRESS_BATCH (Some [example_progress ''x'' 5]) (Inr [])
     \<lparr>downloads = [example_download ''__proto__'' DOWNLOADING],
      progressById = \<lparr>own = Map.empty, proto = Some (example_progress ''__proto__'' 10)\<rparr>\<rparr>
     = Inr \<lparr>downloads = [example_download ''__proto__'' DOWNLOADING],
            progressById = \<lparr>own = [js ''x'' \<mapsto> example_progress ''x'' 5], proto = None\<rparr>\<rparr> \<and>
   row_p \<lparr>downloads = [example_download ''__proto__'' DOWNLOADING],
          progressById = \<lparr>own = [js ''x'' \<mapsto> example_progress ''x'' 5], proto = None\<rparr>\<rparr>
     (example_download ''__proto__'' DOWNLOADING) = None"
proof -
  have k: "js ''x'' \<noteq> js ''__proto__''"
    by (simp add: js_def)
  have i: "DownloadProgressUpdate.id (example_progress ''__proto__'' 10) = js ''__proto__''"
    "DownloadProgressUpdate.id (example_progress ''x'' 5) = js ''x''"
    "DownloadRecord.id (example_download ''__proto__'' DOWNLOADING) = js ''__proto__''"
    by (simp_all add: example_progress_def example_download_def)
  show ?thesis
    using k by (simp add: emit_simps on_progress_batch_def obj_spread_def obj_set_def obj_get_def
        row_p_def i)
qed

section \<open>Properties of the rows\<close>

text \<open>
  Claim C10. For every record and every progress update (or none), the fraction \<open>pct\<close> of
  a row is between 0 and 1 and the width \<open>pct100\<close> of its bar, which is a hundred times
  the fraction, is between 0 and 100. The fraction is 0 when the total is unknown and
  when it is not positive, and it is 1 when the total is positive and the bytes
  downloaded reach or exceed it.
\<close>

theorem row_pct_bounds:
  "0 \<le> row_pct p d \<and> row_pct p d \<le> 1 \<and>
   0 \<le> row_pct100 p d \<and> row_pct100 p d \<le> 100 \<and>
   row_pct100 p d = 100 * row_pct p d \<and>
   (row_total p d = None \<longrightarrow> row_pct p d = 0) \<and>
   (\<forall>t. row_total p d = Some t \<and> t \<le> 0 \<longrightarrow> row_pct p d = 0) \<and>
   (\<forall>t. row_total p d = Some t \<and> 0 < t \<and> t \<le> row_bytes p d \<longrightarrow> row_pct p d = 1)"
proof -
  have b: "0 \<le> row_pct p d \<and> row_pct p d \<le> 1"
    by (simp add: row_pct_def split: option.splits)
  then have "row_pct100 p d = 100 * row_pct p d"
    by (simp add: row_pct100_def)
  moreover have "\<forall>t. row_total p d = Some t \<and> 0 < t \<and> t \<le> row_bytes p d \<longrightarrow> row_pct p d = 1"
    by (simp add: row_pct_def)
  ultimately show ?thesis using b by (simp add: row_pct_def)
qed

theorem row_pct_bounds_witness:
  "row_pct None (example_download ''a'' DOWNLOADING) = 2 / 5 \<and>
   row_pct100 None (example_download ''a'' DOWNLOADING) = 40 \<and>
   row_total (Some (example_progress ''a'' 250)) (example_download ''a'' DOWNLOADING) = Some 100 \<and>
   row_bytes (Some (example_progress ''a'' 250)) (example_download ''a'' DOWNLOADING) = 250 \<and>
   row_pct (Some (example_progress ''a'' 250)) (example_download ''a'' DOWNLOADING) = 1 \<and>
   row_total None ((example_download ''a'' QUEUED)\<lparr>DownloadRecord.content_length := None\<rparr>) = None \<and>
   row_pct None ((example_download ''a'' QUEUED)\<lparr>DownloadRecord.content_length := None\<rparr>) = 0 \<and>
   row_pct None ((example_download ''a'' QUEUED)\<lparr>DownloadRecord.content_length := Some (- 5)\<rparr>) = 0"
proof -
  let ?d = "example_download ''a'' DOWNLOADING"
  let ?p = "Some (example_progress ''a'' 250)"
  let ?n = "(example_download ''a'' QUEUED)\<lparr>DownloadRecord.content_length := None\<rparr>"
  let ?m = "(example_download ''a'' QUEUED)\<lparr>DownloadRecord.content_length := Some (- 5)\<rparr>"
  have t: "row_total ?p ?d = Some 100" "row_bytes ?p ?d = 250"
    "row_total None ?n = None" "row_total None ?m = Some (- 5)"
    by (simp_all add: row_total_def row_bytes_def example_download_def example_progress_def)
  have "row_pct ?p ?d = 1"
    using row_pct_bounds[of ?p ?d] t by simp
  moreover have "row_pct None ?n = 0"
    using row_pct_bounds[of None ?n] t by simp
  moreover have "row_pct None ?m = 0"
    using row_pct_bounds[of None ?m] t by simp
  moreover have "row_pct None ?d = 2 / 5"
    by (simp add: row_pct_def row_total_def row_bytes_def example_download_def)
  moreover from this have "row_pct100 None ?d = 40"
    using row_pct_bounds[of None ?d] by simp
  ultimately show ?thesis using t by simp
qed

section \<open>Properties of the context menu\<close>

text \<open>
  Claim C8. With the menu mounted, opening it on a row and choosing "Pause / Resume"
  invokes \<open>cmd_resume_download\<close> for the id of the record when the status the row shows
  as the menu opens (that of the progress update when there is one, else that of the
  record) is \<open>PAUSED\<close>, and \<open>cmd_pause_download\<close> for that id for every other status.
  When every command of the backend is idempotent, which is the contract of the API,
  doing the same on the unchanged row a second time leaves the backend as the first
  time left it.
\<close>

theorem pause_resume_dispatch:
  "pause_resume_onClick (row_onContextMenu x y p d (Some menu)) =
     Inr (if row_status p d = PAUSED then cmd_resume_download (Some (DownloadRecord.id d))
          else cmd_pause_download (Some (DownloadRecord.id d)),
          hideContextMenu (row_onContextMenu x y p d (Some menu))) \<and>
   ((\<forall>c b. invoke c (invoke c b) = invoke c b) \<longrightarrow>
      (\<exists>doc1 b1 doc2.
         pause_resume_action invoke x y p d (Some menu, b) = Inr (doc1, b1) \<and>
         pause_resume_action invoke x' y' p d (doc1, b1) = Inr (doc2, b1)))"
proof -
  let ?c = "if row_status p d = PAUSED then cmd_resume_download (Some (DownloadRecord.id d))
          else cmd_pause_download (Some (DownloadRecord.id d))"
  have click: "pause_resume_onClick (row_onContextMenu x y p d (Some m)) =
     Inr (?c, hideContextMenu (row_onContextMenu x y p d (Some m)))" for x y m
    by (simp add: pause_resume_onClick_def row_onContextMenu_def showContextMenu_def
        DownloadStatus_str_PAUSED Let_def)
  have some: "\<exists>m'. hideContextMenu (row_onContextMenu x y p d (Some m)) = Some m'" for x y m
    by (simp add: hideContextMenu_def row_onContextMenu_def showContextMenu_def)
  show ?thesis
  proof (intro conjI impI)
    show "pause_resume_onClick (row_onContextMenu x y p d (Some menu)) =
      Inr (?c, hideContextMenu (row_onContextMenu x y p d (Some menu)))"
      by (rule click)
  next
    assume idem: "\<forall>c b. invoke c (invoke c b) = invoke c b"
    from some[of x y menu] obtain m1 where
      m1: "hideContextMenu (row_onContextMenu x y p d (Some menu)) = Some m1" by blast
    have a1: "pause_resume_action invoke x y p d (Some menu, b) = Inr (Some m1, invoke ?c b)"
      by (simp add: pause_resume_action_def click m1)
    have a2: "pause_resume_action invoke x' y' p d (Some m1, invoke ?c b) =
      Inr (hideContextMenu (row_onContextMenu x' y' p d (Some m1)), invoke ?c b)"
      using idem by (simp add: pause_resume_action_def click)
    from a1 a2 show "\<exists>doc1 b1 doc2.
         pause_resume_action invoke x y p d (Some menu, b) = Inr (doc1, b1) \<and>
         pause_resume_action invoke x' y' p d (doc1, b1) = Inr (doc2, b1)"
      by blast
  qed
qed

theorem pause_resume_dispatch_witness:
  "(\<forall>c b. example_invoke c (example_invoke c b) = example_invoke c b) \<and>
   pause_resume_onClick (row_onContextMenu 10 20 None (example_download ''a'' PAUSED) (Some example_menu))
     = Inr (cmd_resume_download (Some (js ''a'')),
            hideContextMenu (row_onContextMenu 10 20 None (example_download ''a'' PAUSED) (Some example_menu))) \<and>
   pause_resume_onClick (row_onContextMenu 10 20 (Some (example_progress ''a'' 50))
       (example_download ''a'' PAUSED) (Some example_menu))
     = Inr (cmd_pause_download (Some (js ''a'')),
            hideContextMenu (row_onContextMenu 10 20 (Some (example_progress ''a'' 50))
              (example_download ''a'' PAUSED) (Some example_menu))) \<and>
   (\<exists>doc1 doc2.
      pause_resume_action example_invoke 10 20 None (example_download ''a'' DOWNLOADING)
        (Some example_menu, DOWNLOADING) = Inr (doc1, PAUSED) \<and>
      pause_resume_action example_invoke 30 40 None (example_download ''a'' DOWNLOADING)
        (doc1, PAUSED) = Inr (doc2, PAUSED))"
proof -
  have idem: "\<forall>c b. example_invoke c (example_invoke c b) = example_invoke c b"
  proof (intro allI)
    fix c b show "example_invoke c (example_invoke c b) = example_invoke c b"
      by (cases c) simp_all
  qed
  let ?d = "example_download ''a'' DOWNLOADING"
  let ?q = "example_download ''a'' PAUSED"
  let ?p = "Some (example_progress ''a'' 50)"
  note t1 = pause_resume_dispatch[of 10 20 None ?d example_menu example_invoke DOWNLOADING 30 40]
  note t2 = pause_resume_dispatch[of 10 20 None ?q example_menu example_invoke DOWNLOADING 30 40]
  note t3 = pause_resume_dispatch[of 10 20 ?p ?q example_menu example_invoke DOWNLOADING 30 40]
  from t1 idem obtain doc1 b1 doc2 where
    a1: "pause_resume_action example_invoke 10 20 None ?d (Some example_menu, DOWNLOADING) = Inr (doc1, b1)" and
    a2: "pause_resume_action example_invoke 30 40 None ?d (doc1, b1) = Inr (doc2, b1)"
    by blast
  from a1 have "b1 = PAUSED"
    by (simp add: pause_resume_action_def pause_resume_onClick_def row_onContextMenu_def
        showContextMenu_def row_status_def example_download_def Let_def js_def
        split: if_splits)
  with a1 a2 have rep: "\<exists>doc1 doc2.
      pause_resume_action example_invoke 10 20 None ?d (Some example_menu, DOWNLOADING) = Inr (doc1, PAUSED) \<and>
      pause_resume_action example_invoke 30 40 None ?d (doc1, PAUSED) = Inr (doc2, PAUSED)"
    by blast
  have c2: "pause_resume_onClick (row_onContextMenu 10 20 None ?q (Some example_menu))
     = Inr (cmd_resume_download (Some (js ''a'')),
            hideContextMenu (row_onContextMenu 10 20 None ?q (Some example_menu)))"
    using t2 by (simp add: row_status_def example_download_def)
  have c3: "pause_resume_onClick (row_onContextMenu 10 20 ?p ?q (Some example_menu))
     = Inr (cmd_pause_download (Some (js ''a'')),
            hideContextMenu (row_onContextMenu 10 20 ?p ?q (Some example_menu)))"
    using t3 by (simp add: row_status_def example_download_def example_progress_def)
  from idem c2 c3 rep show ?thesis by blast
qed

section \<open>Properties of the bandwidth field\<close>

lemma digit_cases: "d < 10 \<Longrightarrow> d \<in> {0, 1, 2, 3, 4, 5, 6, 7, 8, 9::nat}"
  by auto

lemma digit_char_props:
  assumes "d < 10"
  shows "is_digit (digit_char d)" "digit_value (digit_char d) = d"
    "\<not> is_space (digit_char d)" "digit_char d \<noteq> 0x2B" "digit_char d \<noteq> 0x2D"
  using digit_cases[OF assms]
  by (auto simp: is_digit_def digit_char_def digit_value_def is_space_def)

lemma decimal_digits: "decimal n \<noteq> [] \<and> (\<forall>c\<in>set (decimal n). is_digit c) \<and> is_digit (hd (decimal n))
   \<and> \<not> is_space (hd (decimal n)) \<and> hd (decimal n) \<noteq> 0x2B \<and> hd (decimal n) \<noteq> 0x2D"
proof (induction n rule: decimal.induct)
  case (1 n)
  show ?case
  proof (cases "n < 10")
    case True
    then show ?thesis using digit_char_props[of n] by (subst (1 2 3 4 5 6) decimal.simps) simp
  next
    case False
    then have "n mod 10 < 10" by simp
    then show ?thesis using 1 False digit_char_props[of "n mod 10"]
      by (subst (1 2 3 4 5 6) decimal.simps) (simp add: hd_append)
  qed
qed

lemma mathInt_snoc: "mathInt (Z @ [c]) = 10 * mathInt Z + digit_value c"
  by (simp add: mathInt_def)

lemma mathInt_decimal: "mathInt (decimal n) = n"
proof (induction n rule: decimal.induct)
  case (1 n)
  show ?case
  proof (cases "n < 10")
    case True
    then show ?thesis using digit_char_props[of n]
      by (subst decimal.simps) (simp add: mathInt_def)
  next
    case False
    then have "n mod 10 < 10" by simp
    then show ?thesis using 1 False digit_char_props[of "n mod 10"]
      by (subst decimal.simps) (simp add: mathInt_snoc)
  qed
qed

text \<open>Typing the digits of \<open>n\<close> gives the double nearest to \<open>n\<close>.\<close>

lemma parseInt_decimal: "parseInt (decimal n) = to_double (int n)"
proof -
  from decimal_digits[of n] obtain c cs where d: "decimal n = c # cs" and
    c: "\<not> is_space c" "c \<noteq> 0x2B" "c \<noteq> 0x2D" and all: "\<forall>x\<in>set (decimal n). is_digit x"
    by (cases "decimal n") auto
  have dw: "dropWhile is_space (decimal n) = decimal n" using d c by simp
  have tw: "takeWhile is_digit (decimal n) = decimal n" using all by simp
  have ne: "decimal n \<noteq> []" "hd (decimal n) \<noteq> 0x2D" "hd (decimal n) \<noteq> 0x2B"
    using d c by simp_all
  show ?thesis
    by (simp add: parseInt_def Let_def mathInt_decimal dw tw ne)
qed

text \<open>An integer whose bits below the 53 leading ones are zero is a double.\<close>

lemma round_to_53_bits_dvd:
  assumes "n < 2 ^ (53 + j)" and "2 ^ j dvd n"
  shows "round_to_53_bits n = n"
proof -
  have "floorlog 2 n \<le> 53 + j" using assms(1) by (simp add: floorlog_le_iff)
  then have "floorlog 2 n - 53 \<le> j" by simp
  then have "(2::nat) ^ (floorlog 2 n - 53) dvd 2 ^ j" by (rule le_imp_power_dvd)
  then have "2 ^ (floorlog 2 n - 53) dvd n" using assms(2) by (rule dvd_trans)
  then have "n mod 2 ^ (floorlog 2 n - 53) = 0"
    and "n div 2 ^ (floorlog 2 n - 53) * 2 ^ (floorlog 2 n - 53) = n"
    by (simp_all add: mod_eq_0_iff_dvd)
  then show ?thesis by (simp add: round_to_53_bits_def Let_def)
qed

lemma round_to_53_bits_small: "n \<le> 2 ^ 53 \<Longrightarrow> round_to_53_bits n = n"
proof (cases "n < 2 ^ 53")
  case True
  then show ?thesis by (simp add: round_to_53_bits_def)
next
  case False
  assume "n \<le> 2 ^ 53"
  with False have n: "n = 2 ^ 53" by simp
  show ?thesis unfolding n by (rule round_to_53_bits_dvd[where j = 1]) simp_all
qed

lemma round_to_53_bits_times_1024:
  assumes "k \<le> 2 ^ 53"
  shows "round_to_53_bits (1024 * k) = 1024 * k"
proof (cases "k < 2 ^ 53")
  case True
  then have "1024 * k < 2 ^ (53 + 10)" by simp
  moreover have "(2::nat) ^ 10 dvd 1024 * k" by simp
  ultimately show ?thesis by (rule round_to_53_bits_dvd)
next
  case False
  with assms have k: "k = 2 ^ 53" by simp
  show ?thesis unfolding k by (rule round_to_53_bits_dvd[where j = 11]) simp_all
qed

lemma to_double_small: "0 \<le> i \<Longrightarrow> i \<le> 2 ^ 53 \<Longrightarrow> to_double i = Num i"
proof -
  assume i: "0 \<le> i" "i \<le> 2 ^ 53"
  then have k: "nat i \<le> 2 ^ 53" by (simp add: nat_le_iff)
  then have r: "round_to_53_bits (nat i) = nat i" by (rule round_to_53_bits_small)
  have "nat i < 2 ^ 1024" using k by (rule le_less_trans) simp
  then have "\<not> (2::nat) ^ 1024 \<le> nat i" by simp
  then show ?thesis using i unfolding to_double_def Let_def by (simp add: r)
qed

lemma to_double_times_1024:
  assumes "0 \<le> i" "i \<le> 2 ^ 53"
  shows "to_double (i * 1024) = Num (1024 * i)"
proof -
  have n: "nat \<bar>i * 1024\<bar> = 1024 * nat i" using assms by (simp add: nat_mult_distrib)
  have k: "nat i \<le> 2 ^ 53" using assms by (simp add: nat_le_iff)
  then have r: "round_to_53_bits (1024 * nat i) = 1024 * nat i"
    by (rule round_to_53_bits_times_1024)
  have "1024 * nat i \<le> 1024 * 2 ^ 53" using k by simp
  also have "\<dots> < (2::nat) ^ 1024" by simp
  finally have "\<not> (2::nat) ^ 1024 \<le> 1024 * nat i" by simp
  then show ?thesis using assms unfolding to_double_def Let_def n r by simp
qed

lemma floorlog_2_eq: "2 ^ k \<le> n \<Longrightarrow> n < 2 ^ Suc k \<Longrightarrow> floorlog 2 n = Suc k"
proof -
  assume a: "2 ^ k \<le> n" "n < 2 ^ Suc k"
  have "floorlog 2 n \<le> Suc k" using a(2) by (simp add: floorlog_le_iff)
  moreover have "Suc k \<le> floorlog 2 n" using a(1) by (intro floorlog_ge_SucI) simp_all
  ultimately show ?thesis by simp
qed

lemma round_to_53_bits_ge:
  assumes "2 ^ 1024 \<le> n"
  shows "2 ^ 1024 \<le> round_to_53_bits n"
proof -
  define e where "e = floorlog 2 n - 53"
  define q where "q = n div 2 ^ e"
  have n0: "0 < n" using assms by (simp add: less_le_trans[of 0 "2 ^ 1024" n])
  have big: "\<not> n < 2 ^ 53" using assms by (simp add: not_less le_trans[of "2 ^ 53" "2 ^ 1024" n])
  have "1025 \<le> floorlog 2 n" using assms by (intro floorlog_geI) simp_all
  then have L: "floorlog 2 n - 1 = 52 + e" "1024 \<le> 52 + e" by (simp_all add: e_def)
  from floorlog_bounds[of n 2] n0 have "2 ^ (floorlog 2 n - 1) \<le> n" by simp
  then have "2 ^ (52 + e) \<le> n" by (simp only: L(1))
  then have "2 ^ 52 * 2 ^ e \<le> n" by (simp only: power_add)
  then have "2 ^ 52 \<le> q" unfolding q_def by (simp add: less_eq_div_iff_mult_less_eq)
  then have a: "2 ^ 52 * 2 ^ e \<le> q * 2 ^ e" by (rule mult_le_mono1)
  have "(2::nat) ^ 1024 \<le> 2 ^ (52 + e)" using L(2) by (intro power_increasing) simp_all
  then have "(2::nat) ^ 1024 \<le> 2 ^ 52 * 2 ^ e" by (simp only: power_add)
  then have q: "2 ^ 1024 \<le> q * 2 ^ e" using a by (rule le_trans)
  have "q * 2 ^ e \<le> (q + 1) * 2 ^ e" by simp
  with q have q1: "2 ^ 1024 \<le> (q + 1) * 2 ^ e" by (rule le_trans)
  show ?thesis using big q q1 by (simp add: round_to_53_bits_def Let_def e_def q_def)
qed
lemma to_double_Infinity: "2 ^ 1024 \<le> i \<Longrightarrow> to_double i = Infinity"
proof -
  assume a: "2 ^ 1024 \<le> i"
  then have "0 \<le> i" by (rule order_trans[rotated]) simp
  then have "(2::nat) ^ 1024 \<le> nat \<bar>i\<bar>" using a by (simp add: le_nat_iff)
  then have "2 ^ 1024 \<le> round_to_53_bits (nat \<bar>i\<bar>)" by (rule round_to_53_bits_ge)
  then show ?thesis using \<open>0 \<le> i\<close> by (simp add: to_double_def Let_def)
qed

lemma bandwidth_onChange_decimal:
  assumes "k \<le> 2 ^ 53"
  shows "bandwidth_limit_bps (bandwidth_onChange (decimal k) s) =
           (if 0 < k then Some (Num (1024 * int k)) else None)"
    and "bandwidth_value (bandwidth_onChange (decimal k) s) = Num (int k)"
proof -
  have ne: "decimal k \<noteq> []" using decimal_digits[of k] by simp
  have le: "int k \<le> 2 ^ 53" using assms by (simp add: of_nat_le_iff[of k "2 ^ 53", symmetric] del: of_nat_le_iff)
  have p: "parseInt (decimal k) = Num (int k)"
    using le by (simp add: parseInt_decimal to_double_small)
  have t: "times_1024 (Num (int k)) = Num (1024 * int k)"
    using le by (simp add: times_1024_def to_double_times_1024)
  show "bandwidth_limit_bps (bandwidth_onChange (decimal k) s) =
           (if 0 < k then Some (Num (1024 * int k)) else None)"
    by (simp add: bandwidth_onChange_def Let_def ne p t greater_0_def)
  show "bandwidth_value (bandwidth_onChange (decimal k) s) = Num (int k)"
    by (simp add: bandwidth_onChange_def bandwidth_value_def floor_div_1024_def Let_def ne p t
        greater_0_def)
qed

text \<open>
  Claim C7, as amended. For every positive integer \<open>k\<close> up to \<open>2 ^ 53\<close> typed into the
  field as its decimal digits, and for every entry that \<open>parseInt\<close> reads as such a \<open>k\<close>,
  the limit stored is \<open>1024 * k\<close>, and the field then shows \<open>k\<close> again; for the entry
  \<open>0\<close> and for the empty entry the limit stored is \<open>null\<close> and the field shows 0. For every entry \<open>v\<close>, the limit stored is \<open>null\<close> exactly when
  \<open>parseInt\<close> does not give a number greater than 0 for it, which is so when it gives
  \<open>NaN\<close> (no digits) or a number that is not positive; the field then shows 0. The field
  shows the stored limit divided by 1024 and rounded down, and 0 for \<open>null\<close>. The change
  touches no other field of the settings.
\<close>

theorem bandwidth_field_roundtrip:
  "(0 < k \<and> k \<le> 2 ^ 53 \<longrightarrow>
      bandwidth_limit_bps (bandwidth_onChange (decimal k) s) = Some (Num (1024 * int k)) \<and>
      bandwidth_value (bandwidth_onChange (decimal k) s) = Num (int k)) \<and>
   (\<forall>n. parseInt (if v = [] then js ''0'' else v) = Num n \<and> 0 < n \<and> n \<le> 2 ^ 53 \<longrightarrow>
      bandwidth_limit_bps (bandwidth_onChange v s) = Some (Num (1024 * n)) \<and>
      bandwidth_value (bandwidth_onChange v s) = Num n) \<and>
   bandwidth_limit_bps (bandwidth_onChange (decimal 0) s) = None \<and>
   bandwidth_value (bandwidth_onChange (decimal 0) s) = Num 0 \<and>
   bandwidth_limit_bps (bandwidth_onChange [] s) = None \<and>
   bandwidth_value (bandwidth_onChange [] s) = Num 0 \<and>
   (bandwidth_limit_bps (bandwidth_onChange v s) = None \<longleftrightarrow>
      \<not> greater_0 (parseInt (if v = [] then js ''0'' else v))) \<and>
   (parseInt (if v = [] then js ''0'' else v) = NaN \<or>
    (\<exists>n. parseInt (if v = [] then js ''0'' else v) = Num n \<and> n \<le> 0) \<longrightarrow>
      bandwidth_limit_bps (bandwidth_onChange v s) = None \<and>
      bandwidth_value (bandwidth_onChange v s) = Num 0) \<and>
   (bandwidth_limit_bps s = None \<longrightarrow> bandwidth_value s = Num 0) \<and>
   (\<forall>b. bandwidth_limit_bps s = Some (Num b) \<longrightarrow> bandwidth_value s = Num (b div 1024)) \<and>
   bandwidth_onChange v s =
     s\<lparr>bandwidth_limit_bps := bandwidth_limit_bps (bandwidth_onChange v s)\<rparr>"
proof -
  have "decimal 0 = js ''0''"
    by (simp add: decimal.simps digit_char_def js_def)
  then have zero: "parseInt (js ''0'') = Num 0"
    using parseInt_decimal[of 0] by (simp add: to_double_small)
  have pos: "0 < k \<and> k \<le> 2 ^ 53 \<longrightarrow>
      bandwidth_limit_bps (bandwidth_onChange (decimal k) s) = Some (Num (1024 * int k)) \<and>
      bandwidth_value (bandwidth_onChange (decimal k) s) = Num (int k)"
    using bandwidth_onChange_decimal[of k s] by simp
  have z: "bandwidth_limit_bps (bandwidth_onChange (decimal 0) s) = None"
    "bandwidth_value (bandwidth_onChange (decimal 0) s) = Num 0"
    using bandwidth_onChange_decimal[of 0 s] by simp_all
  have e: "bandwidth_limit_bps (bandwidth_onChange [] s) = None"
    "bandwidth_value (bandwidth_onChange [] s) = Num 0"
    by (simp_all add: bandwidth_onChange_def bandwidth_value_def floor_div_1024_def Let_def zero
        greater_0_def)
  have gen: "\<forall>n. parseInt (if v = [] then js ''0'' else v) = Num n \<and> 0 < n \<and> n \<le> 2 ^ 53 \<longrightarrow>
      bandwidth_limit_bps (bandwidth_onChange v s) = Some (Num (1024 * n)) \<and>
      bandwidth_value (bandwidth_onChange v s) = Num n"
    by (simp add: bandwidth_onChange_def bandwidth_value_def floor_div_1024_def Let_def
        greater_0_def times_1024_def to_double_times_1024)
  have rest: "(bandwidth_limit_bps (bandwidth_onChange v s) = None \<longleftrightarrow>
      \<not> greater_0 (parseInt (if v = [] then js ''0'' else v))) \<and>
   (parseInt (if v = [] then js ''0'' else v) = NaN \<or>
    (\<exists>n. parseInt (if v = [] then js ''0'' else v) = Num n \<and> n \<le> 0) \<longrightarrow>
      bandwidth_limit_bps (bandwidth_onChange v s) = None \<and>
      bandwidth_value (bandwidth_onChange v s) = Num 0) \<and>
   (bandwidth_limit_bps s = None \<longrightarrow> bandwidth_value s = Num 0) \<and>
   (\<forall>b. bandwidth_limit_bps s = Some (Num b) \<longrightarrow> bandwidth_value s = Num (b div 1024)) \<and>
   bandwidth_onChange v s =
     s\<lparr>bandwidth_limit_bps := bandwidth_limit_bps (bandwidth_onChange v s)\<rparr>"
    by (auto simp: bandwidth_onChange_def bandwidth_value_def floor_div_1024_def Let_def
        greater_0_def)
  from pos gen z e rest show ?thesis by blast
qed

theorem bandwidth_field_roundtrip_witness:
  "(0::nat) < 250 \<and> (250::nat) \<le> 2 ^ 53 \<and> decimal 250 = js ''250'' \<and>
   bandwidth_limit_bps (bandwidth_onChange (js ''250'') example_settings) = Some (Num 256000) \<and>
   bandwidth_value (bandwidth_onChange (js ''250'') example_settings) = Num 250 \<and>
   parseInt (js ''abc'') = NaN \<and>
   bandwidth_limit_bps (bandwidth_onChange (js ''abc'') example_settings) = None \<and>
   bandwidth_value (bandwidth_onChange (js ''abc'') example_settings) = Num 0 \<and>
   bandwidth_limit_bps example_settings = Some (Num 500) \<and>
   bandwidth_value example_settings = Num 0"
proof -
  have d: "decimal 250 = js ''250''"
    by (simp add: decimal.simps digit_char_def js_def)
  have p: "parseInt (js ''abc'') = NaN"
    by (simp add: parseInt_def Let_def js_def is_space_def is_digit_def)
  have n: "js ''abc'' \<noteq> []" by (simp add: js_def)
  have b: "bandwidth_limit_bps example_settings = Some (Num 500)"
    by (simp add: example_settings_def)
  note inst = bandwidth_field_roundtrip[of 250 example_settings "js ''abc''"]
  from inst have "bandwidth_limit_bps (bandwidth_onChange (decimal 250) example_settings) = Some (Num (1024 * int 250))"
    "bandwidth_value (bandwidth_onChange (decimal 250) example_settings) = Num (int 250)"
    by simp_all
  then have k: "bandwidth_limit_bps (bandwidth_onChange (js ''250'') example_settings) = Some (Num 256000)"
    "bandwidth_value (bandwidth_onChange (js ''250'') example_settings) = Num 250"
    unfolding d by simp_all
  from inst p n have a: "bandwidth_limit_bps (bandwidth_onChange (js ''abc'') example_settings) = None"
    "bandwidth_value (bandwidth_onChange (js ''abc'') example_settings) = Num 0"
    by simp_all
  from inst b have v: "bandwidth_value example_settings = Num 0"
    by simp
  from d k p a b v show ?thesis by simp
qed

text \<open>
  Claim C7 as stated fails: the entry \<open>9007199254740993\<close>, which is \<open>2 ^ 53 + 1\<close>, is read
  as the double \<open>2 ^ 53\<close>; the limit stored is \<open>1024 * 2 ^ 53\<close> and not 1024 times the
  entry, and the field then shows \<open>9007199254740992\<close>. An entry of 401 digits is read as
  \<open>Infinity\<close>, and that is the limit stored.
\<close>

theorem bandwidth_field_rounds_large_entry:
  "decimal 9007199254740993 = js ''9007199254740993'' \<and>
   bandwidth_limit_bps (bandwidth_onChange (js ''9007199254740993'') example_settings)
     = Some (Num 9223372036854775808) \<and>
   (9223372036854775808 :: int) \<noteq> 1024 * 9007199254740993 \<and>
   bandwidth_value (bandwidth_onChange (js ''9007199254740993'') example_settings)
     = Num 9007199254740992 \<and>
   bandwidth_limit_bps (bandwidth_onChange (decimal (10 ^ 400)) example_settings) = Some Infinity"
proof -
  have d: "decimal 9007199254740993 = js ''9007199254740993''"
    by (simp add: decimal.simps digit_char_def js_def)
  have n: "js ''9007199254740993'' \<noteq> []" by (simp add: js_def)
  have "floorlog 2 9007199254740993 = Suc 53" by (rule floorlog_2_eq) simp_all
  then have "to_double 9007199254740993 = Num 9007199254740992"
    by (simp add: to_double_def round_to_53_bits_def Let_def)
  then have p: "parseInt (js ''9007199254740993'') = Num 9007199254740992"
    using parseInt_decimal[of 9007199254740993] unfolding d by simp
  have t: "times_1024 (Num 9007199254740992) = Num 9223372036854775808"
    using to_double_times_1024[of 9007199254740992] by (simp add: times_1024_def)
  define N :: nat where "N = 10 ^ 400"
  have "2 ^ 1024 \<le> int N" by (simp add: N_def)
  then have big: "parseInt (decimal N) = Infinity"
    by (simp add: parseInt_decimal to_double_Infinity)
  have ne: "decimal N \<noteq> []" using decimal_digits[of N] by simp
  have "bandwidth_limit_bps (bandwidth_onChange (decimal N) example_settings) = Some Infinity"
    by (simp add: bandwidth_onChange_def Let_def ne big greater_0_def times_1024_def)
  then have inf: "bandwidth_limit_bps (bandwidth_onChange (decimal (10 ^ 400)) example_settings) = Some Infinity"
    unfolding N_def .
  have "bandwidth_limit_bps (bandwidth_onChange (js ''9007199254740993'') example_settings)
     = Some (Num 9223372036854775808)"
    by (simp add: bandwidth_onChange_def Let_def n p t greater_0_def)
  moreover have "bandwidth_value (bandwidth_onChange (js ''9007199254740993'') example_settings)
     = Num 9007199254740992"
    by (simp add: bandwidth_onChange_def bandwidth_value_def floor_div_1024_def Let_def n p t
        greater_0_def)
  ultimately show ?thesis using d inf by (simp del: power_numeral)
qed

end
